theory Spec2Isabelle
  imports Main
begin

section \<open>Configuration constants (server.h)\<close>

text \<open>
  \<^verbatim>\<open>IO_BUF_SIZE\<close> is the growth chunk of a buffer and the size of the temporary read
  buffer; \<^verbatim>\<open>INVALID_SOCKET\<close> is the sentinel descriptor; \<^verbatim>\<open>SOCKET_MAX\<close> is
  \<^verbatim>\<open>FD_SETSIZE\<close>, which the platform headers fix at 1024.
\<close>

definition IO_BUF_SIZE :: nat where
  "IO_BUF_SIZE = 1024"

definition INVALID_SOCKET :: int where
  "INVALID_SOCKET = - 1"

definition SOCKET_MAX :: int where
  "SOCKET_MAX = 1024"

section \<open>Buffers (buffer.c)\<close>

text \<open>
  A byte is a \<^typ>\<open>char\<close>. A storage block is the list of its bytes, as long as the block
  is large; the null pointer is \<^term>\<open>None\<close>. The field \<^verbatim>\<open>size\<close> of \<^verbatim>\<open>buf_t\<close> is
  called \<open>size'\<close> here. Values of type \<^verbatim>\<open>size_t\<close> are natural numbers: two blocks that are
  both held in memory cannot have lengths that add up to more than the address space.
\<close>

type_synonym byte = char
type_synonym block = "byte list"

record buf_t =
  data :: "block option"
  len :: nat
  size' :: nat

text \<open>
  The allocator \<^verbatim>\<open>_alloc\<close> has the signature of \<^verbatim>\<open>realloc\<close>: from the old block (or
  null) and the requested size it returns the new block, or null when it cannot supply
  it. The old block is an argument only: a failing call leaves it as it was.
\<close>

type_synonym bufAlloc_t = "block option \<Rightarrow> nat \<Rightarrow> block option"

text \<open>
  \<^verbatim>\<open>_defaultAlloc\<close> is \<^verbatim>\<open>realloc\<close>. Whether the C library can supply a size is the
  parameter \<open>avail\<close>; the bytes of the new block beyond the old ones are indeterminate,
  here the parameter \<open>fill\<close>.
\<close>

definition defaultAlloc :: "(nat \<Rightarrow> bool) \<Rightarrow> byte \<Rightarrow> bufAlloc_t" where
  "defaultAlloc avail fill ptr newSize =
     (if avail newSize
      then (let old = (case ptr of None \<Rightarrow> [] | Some b \<Rightarrow> b)
            in Some (take newSize old @ replicate (newSize - length old) fill))
      else None)"

definition alignBufSize :: "nat \<Rightarrow> nat" where
  "alignBufSize s =
     (s - (s mod IO_BUF_SIZE)) + (if s mod IO_BUF_SIZE > 0 then IO_BUF_SIZE else 0)"

definition resetBuf :: "buf_t \<Rightarrow> buf_t" where
  "resetBuf b = b\<lparr>data := None, len := 0, size' := 0\<rparr>"

text \<open>\<^verbatim>\<open>memcpy(dst + off, src, length src)\<close> on a block.\<close>

definition memcpy_at :: "block \<Rightarrow> nat \<Rightarrow> block \<Rightarrow> block" where
  "memcpy_at dst off src = take off dst @ src @ drop (off + length src) dst"

text \<open>
  \<^verbatim>\<open>bufAppend(buf, data, len)\<close>. The pair of the source pointer and its length is one
  argument: \<^term>\<open>None\<close> is the null pointer, \<^term>\<open>Some src\<close> the \<^term>\<open>length src\<close> bytes to
  append. The result is the return value and the buffer after the call.
\<close>

definition bufAppend ::
  "bufAlloc_t \<Rightarrow> buf_t option \<Rightarrow> block option \<Rightarrow> int \<times> buf_t option" where
  "bufAppend alloc bufp dat =
     (case bufp of
        None \<Rightarrow> (0, None)
      | Some buf \<Rightarrow>
          (case dat of
             None \<Rightarrow> (1, Some buf)
           | Some src \<Rightarrow>
               if length src > 0 then
                 (let newLen = len buf + length src;
                      newSize = alignBufSize newLen
                  in if newSize > size' buf then
                       (case alloc (data buf) newSize of
                          None \<Rightarrow> (0, Some buf)
                        | Some newData \<Rightarrow>
                            (1, Some (buf\<lparr>data := Some (memcpy_at newData (len buf) src),
                                          len := newLen, size' := newSize\<rparr>)))
                     else
                       (1, Some (buf\<lparr>data := map_option (\<lambda>d. memcpy_at d (len buf) src)
                                                 (data buf),
                                     len := newLen\<rparr>)))
               else (1, Some buf)))"

text \<open>
  \<^verbatim>\<open>bufPeek(buf, lenDest)\<close> and \<^verbatim>\<open>bufExtract(buf, lenDest)\<close>. The second argument is
  what \<^verbatim>\<open>*lenDest\<close> holds before the call; the result is the returned pointer, what
  \<^verbatim>\<open>*lenDest\<close> holds after the call, and the buffer after the call.
\<close>

definition bufPeek :: "buf_t option \<Rightarrow> nat \<Rightarrow> block option \<times> nat \<times> buf_t option" where
  "bufPeek bufp lenDest =
     (case bufp of
        None \<Rightarrow> (None, lenDest, None)
      | Some buf \<Rightarrow> (data buf, len buf, Some buf))"

definition bufExtract :: "buf_t option \<Rightarrow> nat \<Rightarrow> block option \<times> nat \<times> buf_t option" where
  "bufExtract bufp lenDest =
     (case bufp of
        None \<Rightarrow> (None, lenDest, None)
      | Some buf \<Rightarrow> (data buf, len buf, Some (resetBuf buf)))"

definition bufHasData :: "buf_t option \<Rightarrow> bool" where
  "bufHasData bufp =
     (case bufp of
        None \<Rightarrow> False
      | Some buf \<Rightarrow> data buf \<noteq> None \<and> len buf > 0)"

text \<open>\<^verbatim>\<open>bufClear\<close> frees the storage, if there is one, and resets the buffer.\<close>

definition bufClear :: "buf_t option \<Rightarrow> buf_t option" where
  "bufClear bufp = map_option resetBuf bufp"

text \<open>The bytes that a pointer and a length returned by a buffer denote.\<close>

definition bytes_of :: "block option \<Rightarrow> nat \<Rightarrow> byte list" where
  "bytes_of p n = (case p of None \<Rightarrow> [] | Some d \<Rightarrow> take n d)"

text \<open>The buffer as \<^verbatim>\<open>memset\<close> to zero and \<^verbatim>\<open>_resetBuf\<close> leave it.\<close>

definition emptyBuf :: buf_t where
  "emptyBuf = \<lparr>data = None, len = 0, size' = 0\<rparr>"

text \<open>
  The states a buffer is in between calls: no storage, length and size zero; or a block
  of \<open>size'\<close> bytes of which the first \<open>len\<close>, at least one, are the contents.
\<close>

definition buf_inv :: "buf_t \<Rightarrow> bool" where
  "buf_inv b =
     (case data b of
        None \<Rightarrow> len b = 0 \<and> size' b = 0
      | Some d \<Rightarrow> length d = size' b \<and> 0 < len b \<and> len b \<le> size' b)"

text \<open>
  What the specification asks of an allocation strategy: the block returned has the
  requested size and starts with the bytes of the old block, as far as both reach.
\<close>

definition resizing :: "bufAlloc_t \<Rightarrow> bool" where
  "resizing alloc \<longleftrightarrow>
     (\<forall>ptr n b. alloc ptr n = Some b \<longrightarrow>
        length b = n \<and>
        (\<forall>old. ptr = Some old \<longrightarrow>
           take (min (length old) n) b = take (min (length old) n) old))"

text \<open>
  A run of \<^verbatim>\<open>bufAppend\<close> calls on one buffer, each with the allocator installed at
  that moment and its source bytes; the result is the list of the return values and the
  buffer after the last call.
\<close>

definition chunk :: "block option \<Rightarrow> byte list" where
  "chunk d = (case d of None \<Rightarrow> [] | Some src \<Rightarrow> src)"

fun appendAll ::
  "(bufAlloc_t \<times> block option) list \<Rightarrow> buf_t option \<Rightarrow> int list \<times> buf_t option" where
  "appendAll [] bufp = ([], bufp)"
| "appendAll ((alloc, d) # calls) bufp =
     (let (r, bufp') = bufAppend alloc bufp d;
          (rs, bufp'') = appendAll calls bufp'
      in (r # rs, bufp''))"

text \<open>Three calls with the default allocator: two chunks and a null source between.\<close>

definition abcdeCalls :: "(bufAlloc_t \<times> block option) list" where
  "abcdeCalls =
     [(defaultAlloc (\<lambda>n. True) CHR ''_'', Some ''AB''),
      (defaultAlloc (\<lambda>n. True) CHR ''_'', None),
      (defaultAlloc (\<lambda>n. True) CHR ''_'', Some ''CDE'')]"

text \<open>A buffer filled to its capacity of one chunk.\<close>

definition fullBuf :: buf_t where
  "fullBuf = \<lparr>data = Some (replicate 1024 CHR ''x''), len = 1024, size' = 1024\<rparr>"

section \<open>The handler's view: events and contexts (server.h)\<close>

datatype event_t =
    EVENT_START | EVENT_STOP | EVENT_IDLE
  | EVENT_SOCKET_ACCEPT | EVENT_SOCKET_READ | EVENT_SOCKET_WRITE | EVENT_SOCKET_CLOSE

text \<open>
  The context holds pointers to the two buffers of a socket record:
  \<open>IBuf fd\<close> is \<^verbatim>\<open>&(_sockets[fd].iBuf)\<close>, \<open>OBuf fd\<close> is \<^verbatim>\<open>&(_sockets[fd].oBuf)\<close>,
  \<^term>\<open>None\<close> the null pointer. The fields \<^verbatim>\<open>iBuf\<close> and \<^verbatim>\<open>oBuf\<close> of the context
  are called \<open>ctx_iBuf\<close> and \<open>ctx_oBuf\<close>.
\<close>

datatype bufref = IBuf int | OBuf int

record eventContext_t =
  event :: event_t
  sFd :: int
  cFd :: int
  ctx_iBuf :: "bufref option"
  ctx_oBuf :: "bufref option"

section \<open>The operating system as the reactor sees it\<close>

text \<open>
  The world holds, for every descriptor, the bytes queued for reading, what \<^verbatim>\<open>recv\<close>
  finds behind them, how many bytes \<^verbatim>\<open>send\<close> will take, the bytes sent so far and
  the answers \<^verbatim>\<open>accept\<close> will give; the set of open descriptors; and the trace of the
  system calls, log messages and handler invocations made so far.
\<close>

datatype rx_t = RxOpen | RxEof | RxError
datatype tx_t = TxError | TxRoom nat
datatype accept_t = AcceptFd nat | AcceptAgain | AcceptError

datatype effect =
    Callback eventContext_t
  | Log string
  | Sys_accept int
  | Sys_fcntl int
  | Sys_recv int nat bool
  | Sys_send int "byte list"
  | Sys_select int
  | Sys_close int

record world =
  rxQueue :: "int \<Rightarrow> byte list"
  rxState :: "int \<Rightarrow> rx_t"
  txState :: "int \<Rightarrow> tx_t"
  wire :: "int \<Rightarrow> byte list"
  backlog :: "int \<Rightarrow> accept_t list"
  openFds :: "int set"
  trace :: "effect list"

definition emit :: "effect \<Rightarrow> world \<Rightarrow> world" where
  "emit e w = w\<lparr>trace := trace w @ [e]\<rparr>"

definition logWrite :: "string \<Rightarrow> world \<Rightarrow> world" where
  "logWrite msg w = emit (Log msg) w"

text \<open>
  \<^verbatim>\<open>recv(fd, buf, n, flags)\<close>; \<open>peek\<close> is \<^verbatim>\<open>MSG_PEEK\<close>. The result is the return
  value and the bytes stored in \<^verbatim>\<open>buf\<close>. Queued bytes are delivered before an
  end of file; an empty queue on a non-blocking socket is an error (\<^verbatim>\<open>EAGAIN\<close>).
\<close>

definition sys_recv :: "int \<Rightarrow> nat \<Rightarrow> bool \<Rightarrow> world \<Rightarrow> (int \<times> byte list) \<times> world" where
  "sys_recv fd n peek w =
     (let w1 = emit (Sys_recv fd n peek) w
      in if fd \<notin> openFds w \<or> rxState w fd = RxError then ((- 1, []), w1)
         else if rxQueue w fd \<noteq> [] then
           (let got = take n (rxQueue w fd)
            in ((int (length got), got),
                if peek then w1
                else w1\<lparr>rxQueue := (rxQueue w1)(fd := drop n (rxQueue w fd))\<rparr>))
         else if rxState w fd = RxEof then ((0, []), w1)
         else ((- 1, []), w1))"

text \<open>
  \<^verbatim>\<open>send(fd, data, len, 0)\<close> on the \<open>len\<close> bytes given: the kernel takes as many as it
  has room for, in order.
\<close>

definition sys_send :: "int \<Rightarrow> byte list \<Rightarrow> world \<Rightarrow> int \<times> world" where
  "sys_send fd bytes w =
     (let w1 = emit (Sys_send fd bytes) w
      in if fd \<notin> openFds w then (- 1, w1)
         else (case txState w fd of
                 TxError \<Rightarrow> (- 1, w1)
               | TxRoom room \<Rightarrow>
                   (let n = min room (length bytes)
                    in (int n,
                        w1\<lparr>wire := (wire w1)(fd := wire w fd @ take n bytes),
                           txState := (txState w1)(fd := TxRoom (room - n))\<rparr>))))"

text \<open>\<^verbatim>\<open>accept(fd, NULL, NULL)\<close>: the next answer queued for the listening socket.\<close>

definition sys_accept :: "int \<Rightarrow> world \<Rightarrow> accept_t \<times> world" where
  "sys_accept fd w =
     (let w1 = emit (Sys_accept fd) w
      in if fd \<notin> openFds w then (AcceptError, w1)
         else (case backlog w fd of
                 [] \<Rightarrow> (AcceptAgain, w1)
               | a # rest \<Rightarrow>
                   (a, w1\<lparr>backlog := (backlog w1)(fd := rest),
                          openFds := (case a of AcceptFd n \<Rightarrow> insert (int n) (openFds w1)
                                      | _ \<Rightarrow> openFds w1)\<rparr>)))"

definition sys_close :: "int \<Rightarrow> world \<Rightarrow> world" where
  "sys_close fd w = (emit (Sys_close fd) w)\<lparr>openFds := openFds w - {fd}\<rparr>"

text \<open>
  \<^verbatim>\<open>select(nfds, &readSet, &writeSet, NULL, &timeout)\<close>. What the kernel finds within
  the timeout is the first argument: a failure, an interrupting signal, or the sets of
  the descriptors that are readable and writable. Only descriptors below \<open>nfds\<close> are
  examined; the result is the return value, whether \<^verbatim>\<open>errno\<close> is \<^verbatim>\<open>EINTR\<close>, and
  the two sets as the call leaves them.
\<close>

datatype select_t = SelectFailed | SelectInterrupted | SelectReady "int set" "int set"

definition sys_select ::
  "select_t \<Rightarrow> int \<Rightarrow> int set \<Rightarrow> int set \<Rightarrow> world \<Rightarrow> (int \<times> bool \<times> int set \<times> int set) \<times> world" where
  "sys_select sel nfds readSet writeSet w =
     (let w1 = emit (Sys_select nfds) w
      in case sel of
           SelectFailed \<Rightarrow> ((- 1, False, readSet, writeSet), w1)
         | SelectInterrupted \<Rightarrow> ((- 1, True, readSet, writeSet), w1)
         | SelectReady R W \<Rightarrow>
             (let r = readSet \<inter> R \<inter> {0..<nfds};
                  x = writeSet \<inter> W \<inter> {0..<nfds}
              in ((int (card r) + int (card x), False,
                   r \<union> (readSet \<inter> {nfds..}), x \<union> (writeSet \<inter> {nfds..})), w1)))"

section \<open>Socket primitives (socket.c)\<close>

definition socketAccept :: "int \<Rightarrow> world \<Rightarrow> int \<times> world" where
  "socketAccept fd w =
     (let (newFd, w1) = sys_accept fd w
      in case newFd of
           AcceptFd n \<Rightarrow> (int n, emit (Sys_fcntl (int n)) w1)
         | AcceptAgain \<Rightarrow> (SOCKET_MAX, w1)
         | AcceptError \<Rightarrow>
             (INVALID_SOCKET, logWrite ''strerror(errno)'' (logWrite ''ERROR accept()'' w1)))"

definition socketRead ::
  "bufAlloc_t \<Rightarrow> int \<Rightarrow> buf_t option \<Rightarrow> world \<Rightarrow> (int \<times> buf_t option) \<times> world" where
  "socketRead alloc fd buf w =
     (let ((bytesRead, tmpBuf), w1) = sys_recv fd IO_BUF_SIZE True w
      in if bytesRead > 0 then
           (let (ok, buf') = bufAppend alloc buf (Some (take (nat bytesRead) tmpBuf))
            in if ok \<noteq> 0 then ((1, buf'), snd (sys_recv fd (nat bytesRead) False w1))
               else ((0, buf'), w1))
         else if bytesRead < 0 then
           ((0, buf), logWrite ''strerror(errno)'' (logWrite ''ERROR recv()'' w1))
         else ((0, buf), w1))"

text \<open>
  In \<^verbatim>\<open>socketWrite\<close> the variable \<^verbatim>\<open>len\<close> is not initialised before
  \<^verbatim>\<open>bufExtract\<close> writes it; the call is reached with a buffer that has data only.
\<close>

definition socketWrite ::
  "bufAlloc_t \<Rightarrow> int \<Rightarrow> buf_t option \<Rightarrow> world \<Rightarrow> (int \<times> buf_t option) \<times> world" where
  "socketWrite alloc fd buf w =
     (if bufHasData buf then
        (let (dat, len', buf1) = bufExtract buf 0;
             (sent, w1) = sys_send fd (bytes_of dat len') w;
             (bytesWritten, w2) =
               (if sent < 0
                then (0, logWrite ''strerror(errno)'' (logWrite ''ERROR send()'' w1))
                else (sent, w1));
             buf2 =
               (if nat bytesWritten < len'
                then snd (bufAppend alloc buf1
                       (map_option (\<lambda>d. take (len' - nat bytesWritten) (drop (nat bytesWritten) d))
                          dat))
                else buf1)
         in if bytesWritten = 0 then ((0, buf2), w2) else ((1, buf2), w2))
      else ((1, buf), w))"

definition socketClose :: "int \<Rightarrow> world \<Rightarrow> world" where
  "socketClose fd w = sys_close fd w"

section \<open>The socket registry and the reactor (server.c)\<close>

text \<open>
  The names of the static functions of \<^verbatim>\<open>server.c\<close> are written without their leading
  underscore. The registry is the array \<^verbatim>\<open>_sockets\<close>, indexed by descriptor, the two
  descriptor sets and \<^verbatim>\<open>_highestSocket\<close>.
\<close>

record socket_t =
  iBuf :: buf_t
  oBuf :: buf_t
  keepAlive :: bool
  isServer :: bool

record server =
  sockets :: "int \<Rightarrow> socket_t"
  socketReadSet :: "int set"
  socketWriteSet :: "int set"
  highestSocket :: int

text \<open>
  The handler \<^verbatim>\<open>_callback\<close> is code outside the reactor. It is called with the context
  and may change the registry through the public operations and the buffers it has been
  handed; here it is any function on the registry, and \<^term>\<open>None\<close> is the null pointer.
  The world changes through the system calls of the reactor only.
\<close>

type_synonym callback_t = "(eventContext_t \<Rightarrow> server \<Rightarrow> server) option"

text \<open>The buffer at an address after a call that was given that address.\<close>

definition stored :: "buf_t \<Rightarrow> buf_t option \<Rightarrow> buf_t" where
  "stored old p = (case p of None \<Rightarrow> old | Some b \<Rightarrow> b)"

definition invokeCallback ::
  "callback_t \<Rightarrow> event_t \<Rightarrow> int \<Rightarrow> int \<Rightarrow> bufref option \<Rightarrow> bufref option \<Rightarrow>
   server \<times> world \<Rightarrow> server \<times> world" where
  "invokeCallback cb ev sfd cfd ib ob st =
     (case cb of
        None \<Rightarrow> st
      | Some f \<Rightarrow>
          (let context = \<lparr>event = ev, sFd = sfd, cFd = cfd, ctx_iBuf = ib, ctx_oBuf = ob\<rparr>
           in (f context (fst st), emit (Callback context) (snd st))))"

definition isValidSocket :: "int \<Rightarrow> bool" where
  "isValidSocket fd \<longleftrightarrow> fd > INVALID_SOCKET \<and> fd < SOCKET_MAX"

definition addSocket :: "int \<Rightarrow> server \<Rightarrow> int \<times> server" where
  "addSocket fd s =
     (if isValidSocket fd then
        (1, s\<lparr>sockets := (sockets s)(fd := (sockets s fd)
                 \<lparr>iBuf := stored (iBuf (sockets s fd)) (bufClear (Some (iBuf (sockets s fd)))),
                  oBuf := stored (oBuf (sockets s fd)) (bufClear (Some (oBuf (sockets s fd)))),
                  keepAlive := True, isServer := False\<rparr>),
              socketReadSet := insert fd (socketReadSet s),
              highestSocket := (if fd > highestSocket s then fd else highestSocket s)\<rparr>)
      else (0, s))"

text \<open>
  The loop of \<^verbatim>\<open>_findHighestSocket\<close>: \<open>findFrom rs n\<close> tries \<open>n - 1\<close>, \<open>n - 2\<close>,
  down to 0.
\<close>

fun findFrom :: "int set \<Rightarrow> nat \<Rightarrow> int" where
  "findFrom rs 0 = INVALID_SOCKET"
| "findFrom rs (Suc i) = (if int i \<in> rs then int i else findFrom rs i)"

definition findHighestSocket :: "server \<Rightarrow> int" where
  "findHighestSocket s = findFrom (socketReadSet s) (nat (highestSocket s))"

definition removeSocket :: "callback_t \<Rightarrow> int \<Rightarrow> server \<times> world \<Rightarrow> server \<times> world" where
  "removeSocket cb fd st =
     (let (s1, w1) =
            (if isServer (sockets (fst st) fd)
             then invokeCallback cb EVENT_SOCKET_CLOSE fd INVALID_SOCKET None None st
             else invokeCallback cb EVENT_SOCKET_CLOSE INVALID_SOCKET fd None None st);
          s2 = s1\<lparr>sockets := (sockets s1)(fd := (sockets s1 fd)
                  \<lparr>iBuf := stored (iBuf (sockets s1 fd)) (bufClear (Some (iBuf (sockets s1 fd)))),
                   oBuf := stored (oBuf (sockets s1 fd)) (bufClear (Some (oBuf (sockets s1 fd)))),
                   keepAlive := False, isServer := False\<rparr>),
                 socketReadSet := socketReadSet s1 - {fd},
                 socketWriteSet := socketWriteSet s1 - {fd}\<rparr>;
          s3 = (if fd = highestSocket s2
                then s2\<lparr>highestSocket := findHighestSocket s2\<rparr> else s2)
      in (s3, socketClose fd w1))"

definition enableSocketWrite :: "int \<Rightarrow> server \<Rightarrow> server" where
  "enableSocketWrite fd s = s\<lparr>socketWriteSet := insert fd (socketWriteSet s)\<rparr>"

definition disableSocketWrite :: "int \<Rightarrow> server \<Rightarrow> server" where
  "disableSocketWrite fd s = s\<lparr>socketWriteSet := socketWriteSet s - {fd}\<rparr>"

definition checkClientSocket :: "callback_t \<Rightarrow> int \<Rightarrow> server \<times> world \<Rightarrow> server \<times> world" where
  "checkClientSocket cb cfd st =
     (if bufHasData (Some (oBuf (sockets (fst st) cfd)))
      then (enableSocketWrite cfd (fst st), snd st)
      else if \<not> keepAlive (sockets (fst st) cfd) then removeSocket cb cfd st
      else st)"

definition handleServerInput :: "callback_t \<Rightarrow> int \<Rightarrow> server \<times> world \<Rightarrow> server \<times> world" where
  "handleServerInput cb sfd st =
     (let (cfd, w1) = socketAccept sfd (snd st)
      in if cfd \<ge> 0 then
           (let (added, s1) = addSocket cfd (fst st)
            in if added \<noteq> 0 then
                 checkClientSocket cb cfd
                   (invokeCallback cb EVENT_SOCKET_ACCEPT sfd cfd
                      (Some (IBuf cfd)) (Some (OBuf cfd)) (s1, w1))
               else (s1, socketClose cfd w1))
         else removeSocket cb sfd (fst st, w1))"

definition handleClientInput ::
  "callback_t \<Rightarrow> bufAlloc_t \<Rightarrow> int \<Rightarrow> server \<times> world \<Rightarrow> server \<times> world" where
  "handleClientInput cb alloc cfd st =
     (let s = fst st;
          ((got, buf'), w1) = socketRead alloc cfd (Some (iBuf (sockets s cfd))) (snd st);
          s1 = s\<lparr>sockets := (sockets s)(cfd := (sockets s cfd)
                  \<lparr>iBuf := stored (iBuf (sockets s cfd)) buf'\<rparr>)\<rparr>
      in if got \<noteq> 0 then
           checkClientSocket cb cfd
             (invokeCallback cb EVENT_SOCKET_READ INVALID_SOCKET cfd
                (Some (IBuf cfd)) (Some (OBuf cfd)) (s1, w1))
         else removeSocket cb cfd (s1, w1))"

definition handleInput ::
  "callback_t \<Rightarrow> bufAlloc_t \<Rightarrow> int \<Rightarrow> server \<times> world \<Rightarrow> server \<times> world" where
  "handleInput cb alloc fd st =
     (if isServer (sockets (fst st) fd) then handleServerInput cb fd st
      else handleClientInput cb alloc fd st)"

definition handleOutput ::
  "callback_t \<Rightarrow> bufAlloc_t \<Rightarrow> int \<Rightarrow> server \<times> world \<Rightarrow> server \<times> world" where
  "handleOutput cb alloc cfd st =
     (let s = fst st;
          ((written, buf'), w1) = socketWrite alloc cfd (Some (oBuf (sockets s cfd))) (snd st);
          s1 = s\<lparr>sockets := (sockets s)(cfd := (sockets s cfd)
                  \<lparr>oBuf := stored (oBuf (sockets s cfd)) buf'\<rparr>)\<rparr>
      in if written \<noteq> 0 then
           (let (s2, w2) = invokeCallback cb EVENT_SOCKET_WRITE INVALID_SOCKET cfd
                             (Some (IBuf cfd)) (Some (OBuf cfd)) (s1, w1)
            in if \<not> bufHasData (Some (oBuf (sockets s2 cfd))) then
                 (let s3 = disableSocketWrite cfd s2
                  in if \<not> keepAlive (sockets s3 cfd) then removeSocket cb cfd (s3, w2)
                     else (s3, w2))
               else (s2, w2))
         else removeSocket cb cfd (s1, w1))"

text \<open>
  \<^verbatim>\<open>serverPrepare\<close> resets the handler to the null pointer, the records to zero, both
  sets to the empty set and \<^verbatim>\<open>_highestSocket\<close> to the sentinel.
\<close>

definition zeroSocket :: socket_t where
  "zeroSocket = \<lparr>iBuf = emptyBuf, oBuf = emptyBuf, keepAlive = False, isServer = False\<rparr>"

definition serverPrepare :: "callback_t \<times> server" where
  "serverPrepare =
     (None, \<lparr>sockets = (\<lambda>fd. zeroSocket), socketReadSet = {}, socketWriteSet = {},
             highestSocket = INVALID_SOCKET\<rparr>)"

text \<open>
  The loop of \<^verbatim>\<open>serverExec\<close> over the descriptors from \<open>fd\<close> on; its bound
  \<^verbatim>\<open>_highestSocket\<close> is read again before every round. The result is \<^term>\<open>None\<close> when
  the loop does not end.
\<close>

partial_function (option) execLoop ::
  "callback_t \<Rightarrow> bufAlloc_t \<Rightarrow> int set \<Rightarrow> int set \<Rightarrow> int \<Rightarrow> server \<times> world \<Rightarrow>
   (server \<times> world) option" where
  "execLoop cb alloc readSet writeSet fd st =
     (if fd \<le> highestSocket (fst st) then
        execLoop cb alloc readSet writeSet (fd + 1)
          (let st1 = (if fd \<in> readSet then handleInput cb alloc fd st else st)
           in if fd \<in> writeSet then handleOutput cb alloc fd st1 else st1)
      else Some st)"

definition serverExec ::
  "callback_t \<Rightarrow> bufAlloc_t \<Rightarrow> select_t \<Rightarrow> server \<times> world \<Rightarrow> (int \<times> server \<times> world) option" where
  "serverExec cb alloc sel st =
     (if highestSocket (fst st) < 0 then Some (2, st)
      else
        (let ((result, eintr, readSet, writeSet), w1) =
               sys_select sel (highestSocket (fst st) + 1)
                 (socketReadSet (fst st)) (socketWriteSet (fst st)) (snd st)
         in if result > 0 then
              map_option (\<lambda>st'. (1, st')) (execLoop cb alloc readSet writeSet 0 (fst st, w1))
            else if result < 0 then
              (if \<not> eintr then Some (0, (fst st, logWrite ''select(): strerror(errno)'' w1))
               else Some (1, (fst st, w1)))
            else
              Some (1, invokeCallback cb EVENT_IDLE INVALID_SOCKET INVALID_SOCKET None None
                         (fst st, w1))))"

definition serverCloseSocket :: "int \<Rightarrow> server \<Rightarrow> server" where
  "serverCloseSocket fd s =
     (if isValidSocket fd \<and> \<not> isServer (sockets s fd) then
        enableSocketWrite fd
          (s\<lparr>sockets := (sockets s)(fd := (sockets s fd)\<lparr>keepAlive := False\<rparr>)\<rparr>)
      else s)"

section \<open>Predicates of the statements\<close>

text \<open>
  The registry invariant: the read set holds descriptors in range only, as an
  \<^verbatim>\<open>fd_set\<close> does, and \<^verbatim>\<open>_highestSocket\<close> is its greatest element, or the sentinel
  when it is empty.
\<close>

definition reg_inv :: "server \<Rightarrow> bool" where
  "reg_inv s \<longleftrightarrow>
     socketReadSet s \<subseteq> {0..<SOCKET_MAX}
     \<and> highestSocket s =
         (if socketReadSet s = {} then INVALID_SOCKET else Max (socketReadSet s))"

text \<open>
  Two assumptions on a handler. It keeps the registry invariant, as every handler does
  that changes the registry through \<^verbatim>\<open>serverCloseSocket\<close> and
  \<^verbatim>\<open>serverAddServerSocket\<close> only. It leaves a socket as it is in one call, the call
  with the given context on the given registry: the record of the descriptor and its
  membership in the two sets are after that call what they were before it. Nothing is
  asked of any other call of the handler.
\<close>

definition handler_keeps_inv :: "callback_t \<Rightarrow> bool" where
  "handler_keeps_inv cb \<longleftrightarrow>
     (case cb of None \<Rightarrow> True | Some f \<Rightarrow> (\<forall>ctx s. reg_inv s \<longrightarrow> reg_inv (f ctx s)))"

definition handler_leaves :: "callback_t \<Rightarrow> eventContext_t \<Rightarrow> server \<Rightarrow> int \<Rightarrow> bool" where
  "handler_leaves cb ctx s fd \<longleftrightarrow>
     (case cb of
        None \<Rightarrow> True
      | Some f \<Rightarrow>
          sockets (f ctx s) fd = sockets s fd
          \<and> (fd \<in> socketWriteSet (f ctx s)) = (fd \<in> socketWriteSet s)
          \<and> (fd \<in> socketReadSet (f ctx s)) = (fd \<in> socketReadSet s))"


definition writeContext :: "int \<Rightarrow> eventContext_t" where
  "writeContext cfd =
     \<lparr>event = EVENT_SOCKET_WRITE, sFd = INVALID_SOCKET, cFd = cfd,
      ctx_iBuf = Some (IBuf cfd), ctx_oBuf = Some (OBuf cfd)\<rparr>"


definition atWriteEvent :: "bufAlloc_t \<Rightarrow> int \<Rightarrow> server \<times> world \<Rightarrow> server" where
  "atWriteEvent alloc cfd st =
     (fst st)\<lparr>sockets := (sockets (fst st))(cfd := (sockets (fst st) cfd)
        \<lparr>oBuf := stored (oBuf (sockets (fst st) cfd))
                  (snd (fst (socketWrite alloc cfd (Some (oBuf (sockets (fst st) cfd)))
                               (snd st))))\<rparr>)\<rparr>"

text \<open>What \<^verbatim>\<open>_invokeCallback\<close> adds to the trace: nothing when no handler is set.\<close>

definition fired ::
  "callback_t \<Rightarrow> event_t \<Rightarrow> int \<Rightarrow> int \<Rightarrow> bufref option \<Rightarrow> bufref option \<Rightarrow> effect list" where
  "fired cb ev sfd cfd ib ob =
     (case cb of
        None \<Rightarrow> []
      | Some f \<Rightarrow> [Callback \<lparr>event = ev, sFd = sfd, cFd = cfd, ctx_iBuf = ib, ctx_oBuf = ob\<rparr>])"

section \<open>Concrete states\<close>

text \<open>
  Allocators: one that never supplies memory and the default one when memory is there.
  Handlers: one that clears the output buffer of the client of the event, one that
  appends \<open>FG\<close> to the output buffer of the client in the events of one kind and does
  nothing in the others, and one that asks for the client of the event to be closed.
\<close>

definition noMemory :: bufAlloc_t where
  "noMemory ptr newSize = None"

definition plainAlloc :: bufAlloc_t where
  "plainAlloc = defaultAlloc (\<lambda>n. True) CHR ''_''"

definition clearOutput :: callback_t where
  "clearOutput =
     Some (\<lambda>ctx s. s\<lparr>sockets := (sockets s)(cFd ctx := (sockets s (cFd ctx))
             \<lparr>oBuf := stored (oBuf (sockets s (cFd ctx)))
                        (bufClear (Some (oBuf (sockets s (cFd ctx)))))\<rparr>)\<rparr>)"

definition appendOn :: "event_t \<Rightarrow> callback_t" where
  "appendOn ev =
     Some (\<lambda>ctx s.
       if event ctx = ev then
         s\<lparr>sockets := (sockets s)(cFd ctx := (sockets s (cFd ctx))
             \<lparr>oBuf := stored (oBuf (sockets s (cFd ctx)))
                        (snd (bufAppend plainAlloc (Some (oBuf (sockets s (cFd ctx))))
                                (Some ''FG'')))\<rparr>)\<rparr>
       else s)"

definition closeHandler :: callback_t where
  "closeHandler = Some (\<lambda>ctx s. serverCloseSocket (cFd ctx) s)"

text \<open>
  Worlds: no descriptor open; descriptor 5 with \<open>hello\<close> queued for reading; the
  descriptors 3, 5 and 1024 open and no connection waiting on 3; descriptor 5 with room
  for \<open>room\<close> bytes to send; descriptor 5 with \<^verbatim>\<open>send\<close> failing; descriptor 5 with
  the connection closed by the peer.
\<close>

definition quietWorld :: world where
  "quietWorld =
     \<lparr>rxQueue = (\<lambda>fd. []), rxState = (\<lambda>fd. RxOpen), txState = (\<lambda>fd. TxRoom 0),
      wire = (\<lambda>fd. []), backlog = (\<lambda>fd. []), openFds = {}, trace = []\<rparr>"

definition helloWorld :: world where
  "helloWorld =
     \<lparr>rxQueue = (\<lambda>fd. [])(5 := ''hello''), rxState = (\<lambda>fd. RxOpen),
      txState = (\<lambda>fd. TxRoom 0), wire = (\<lambda>fd. []), backlog = (\<lambda>fd. []),
      openFds = {3, 5}, trace = []\<rparr>"

definition raceWorld :: world where
  "raceWorld =
     \<lparr>rxQueue = (\<lambda>fd. []), rxState = (\<lambda>fd. RxOpen), txState = (\<lambda>fd. TxRoom 0),
      wire = (\<lambda>fd. []), backlog = (\<lambda>fd. []), openFds = {3, 5, 1024}, trace = []\<rparr>"

definition roomWorld :: "nat \<Rightarrow> world" where
  "roomWorld room =
     \<lparr>rxQueue = (\<lambda>fd. []), rxState = (\<lambda>fd. RxOpen), txState = (\<lambda>fd. TxRoom room),
      wire = (\<lambda>fd. []), backlog = (\<lambda>fd. []), openFds = {5}, trace = []\<rparr>"



text \<open>
  Registries: a listening socket 3 and a client 5; a client 5 with \<open>ABCDE\<close> in its
  output buffer, kept alive and not; the registry after \<^verbatim>\<open>serverPrepare\<close> and
  \<^verbatim>\<open>_addSocket\<close> of 3, 7 and 9.
\<close>

definition abcdeBuf :: buf_t where
  "abcdeBuf = \<lparr>data = Some (''ABCDE'' @ replicate 1019 CHR ''_''), len = 5, size' = 1024\<rparr>"

definition clientAt5 :: server where
  "clientAt5 =
     \<lparr>sockets = (\<lambda>fd. zeroSocket)
        (3 := \<lparr>iBuf = emptyBuf, oBuf = emptyBuf, keepAlive = True, isServer = True\<rparr>,
         5 := \<lparr>iBuf = emptyBuf, oBuf = emptyBuf, keepAlive = True, isServer = False\<rparr>),
      socketReadSet = {3, 5}, socketWriteSet = {}, highestSocket = 5\<rparr>"

definition writerAt5 :: server where
  "writerAt5 =
     \<lparr>sockets = (\<lambda>fd. zeroSocket)
        (5 := \<lparr>iBuf = emptyBuf, oBuf = abcdeBuf, keepAlive = True, isServer = False\<rparr>),
      socketReadSet = {5}, socketWriteSet = {5}, highestSocket = 5\<rparr>"


definition s379 :: server where
  "s379 = snd (addSocket 9 (snd (addSocket 7 (snd (addSocket 3 (snd serverPrepare))))))"

section \<open>Properties of buffers\<close>

text \<open>
  C10. On a buffer that is not the null pointer, \<^verbatim>\<open>bufExtract\<close> stores the current
  length of the buffer in \<^verbatim>\<open>*lenDest\<close>, whatever it held, returns the storage pointer and
  resets the buffer. On an empty buffer the pointer returned is null and the value
  stored is 0: the out-parameter is written, not left as it was.
\<close>

theorem bufExtract_stores_len:
  "fst (snd (bufExtract (Some buf) l0)) = len buf
   \<and> fst (bufExtract (Some buf) l0) = data buf
   \<and> snd (snd (bufExtract (Some buf) l0)) = Some \<lparr>data = None, len = 0, size' = 0\<rparr>
   \<and> (buf_inv buf \<and> \<not> bufHasData (Some buf) \<longrightarrow>
        fst (bufExtract (Some buf) l0) = None \<and> fst (snd (bufExtract (Some buf) l0)) = 0)"
  by (cases buf) (auto simp: bufExtract_def resetBuf_def buf_inv_def bufHasData_def
      split: option.splits)

theorem bufExtract_stores_len_witness:
  "buf_inv emptyBuf \<and> \<not> bufHasData (Some emptyBuf)
   \<and> fst (bufExtract (Some emptyBuf) 7) = None
   \<and> fst (snd (bufExtract (Some emptyBuf) 7)) = 0"
  using bufExtract_stores_len [of emptyBuf 7]
  by (simp add: buf_inv_def emptyBuf_def bufHasData_def)

text \<open>
  The aligned size covers the size asked for; \<^verbatim>\<open>realloc\<close> resizes; \<^verbatim>\<open>bufAppend\<close> fails
  only through the allocator, and a successful call on a buffer in one of its states
  appends the chunk and leaves the buffer in one of its states.
\<close>

lemma alignBufSize_ge: "s \<le> alignBufSize s"
proof -
  define m where "m = s mod IO_BUF_SIZE"
  have "m < IO_BUF_SIZE" by (simp add: m_def IO_BUF_SIZE_def)
  moreover have "m \<le> s" by (simp add: m_def)
  ultimately have "s \<le> (s - m) + (if m > 0 then IO_BUF_SIZE else 0)"
    by (cases "m = 0") simp_all
  then show ?thesis by (simp add: alignBufSize_def m_def)
qed

lemma resizing_defaultAlloc: "resizing (defaultAlloc avail fill)"
  by (auto simp: resizing_def defaultAlloc_def Let_def split: if_splits option.splits)

lemma bufAppend_fail_iff:
  assumes "src \<noteq> []"
  shows "fst (bufAppend alloc (Some buf) (Some src)) = 0 \<longleftrightarrow>
         (alignBufSize (len buf + length src) > size' buf \<and>
          alloc (data buf) (alignBufSize (len buf + length src)) = None)"
  using assms by (auto simp: bufAppend_def Let_def split: option.splits)

lemma bufAppend_fail_same:
  "fst (bufAppend alloc (Some buf) d) = 0 \<Longrightarrow> snd (bufAppend alloc (Some buf) d) = Some buf"
  by (auto simp: bufAppend_def Let_def split: option.splits if_splits)

lemma bufAppend_ok_step:
  assumes "resizing alloc" "buf_inv buf" "bufAppend alloc (Some buf) d = (1, bufp')"
  shows "\<exists>buf'. bufp' = Some buf' \<and> buf_inv buf' \<and>
           bytes_of (data buf') (len buf') = bytes_of (data buf) (len buf) @ chunk d"
proof (cases d)
  case None
  with assms show ?thesis by (auto simp: bufAppend_def chunk_def)
next
  case (Some src)
  show ?thesis
  proof (cases "src = []")
    case True
    with Some assms show ?thesis by (auto simp: bufAppend_def chunk_def)
  next
    case False
    define newLen where "newLen = len buf + length src"
    define newSize where "newSize = alignBufSize newLen"
    have ge: "newLen \<le> newSize" by (simp add: newSize_def alignBufSize_ge)
    show ?thesis
    proof (cases "newSize > size' buf")
      case True
      with assms(3) Some False obtain newData where
        al: "alloc (data buf) newSize = Some newData" and
        b': "bufp' = Some (buf\<lparr>data := Some (memcpy_at newData (len buf) src),
                                    len := newLen, size' := newSize\<rparr>)"
        by (auto simp: bufAppend_def Let_def newLen_def newSize_def split: option.splits)
      from assms(1) al have ln: "length newData = newSize"
        by (auto simp: resizing_def)
      have pre: "take (len buf) newData = bytes_of (data buf) (len buf)"
      proof (cases "data buf")
        case None
        with assms(2) show ?thesis by (simp add: buf_inv_def bytes_of_def)
      next
        case (Some old)
        with assms(2) have o: "length old = size' buf" "len buf \<le> size' buf"
          by (auto simp: buf_inv_def)
        from assms(1) al Some have "take (min (length old) newSize) newData = take (min (length old) newSize) old"
          by (auto simp: resizing_def)
        with o True have "take (size' buf) newData = old" by (simp add: min_def)
        then have "take (len buf) (take (size' buf) newData) = take (len buf) old" by simp
        with o Some show ?thesis by (simp add: bytes_of_def min_def)
      qed
      have lb: "len buf \<le> length newData" using ln ge by (simp add: newLen_def)
      have inv': "buf_inv (buf\<lparr>data := Some (memcpy_at newData (len buf) src),
                                    len := newLen, size' := newSize\<rparr>)"
        using ln ge lb False by (auto simp: buf_inv_def memcpy_at_def newLen_def)
      have "take newLen (memcpy_at newData (len buf) src) = take (len buf) newData @ src"
        using lb by (simp add: memcpy_at_def newLen_def)
      with pre have "bytes_of (Some (memcpy_at newData (len buf) src)) newLen
             = bytes_of (data buf) (len buf) @ chunk d"
        by (simp add: bytes_of_def chunk_def Some)
      with inv' b' show ?thesis by simp
    next
      case nogrow: False
      from False have "0 < length src" by simp
      with nogrow ge have pos: "0 < size' buf" unfolding newLen_def by linarith
      with assms(2) obtain old where o: "data buf = Some old" "length old = size' buf" "len buf \<le> size' buf"
        by (auto simp: buf_inv_def split: option.splits)
      from assms(3) Some False nogrow o have
        b': "bufp' = Some (buf\<lparr>data := Some (memcpy_at old (len buf) src), len := newLen\<rparr>)"
        by (auto simp: bufAppend_def Let_def newLen_def newSize_def)
      have lb: "len buf \<le> length old" using o by simp
      have nl: "newLen \<le> length old" using nogrow ge o by simp
      have inv': "buf_inv (buf\<lparr>data := Some (memcpy_at old (len buf) src), len := newLen\<rparr>)"
        using nl lb o False by (auto simp: buf_inv_def memcpy_at_def newLen_def)
      have "take newLen (memcpy_at old (len buf) src) = take (len buf) old @ src"
        using lb by (simp add: memcpy_at_def newLen_def)
      then have "bytes_of (Some (memcpy_at old (len buf) src)) newLen
             = bytes_of (data buf) (len buf) @ chunk d"
        by (simp add: bytes_of_def chunk_def Some o)
      with inv' b' show ?thesis by simp
    qed
  qed
qed

lemma appendAll_ok:
  assumes "\<forall>c \<in> set calls. resizing (fst c)" "buf_inv buf"
    "appendAll calls (Some buf) = (rs, bufp')" "\<forall>r \<in> set rs. r = 1"
  shows "\<exists>buf'. bufp' = Some buf' \<and> buf_inv buf' \<and>
           bytes_of (data buf') (len buf') = bytes_of (data buf) (len buf) @ concat (map (chunk \<circ> snd) calls)"
  using assms
proof (induction calls arbitrary: buf rs bufp')
  case Nil
  then show ?case by auto
next
  case (Cons c calls)
  obtain alloc d where c: "c = (alloc, d)" by (cases c)
  obtain r b1 where s1: "bufAppend alloc (Some buf) d = (r, b1)" by (cases "bufAppend alloc (Some buf) d")
  obtain rs2 b2 where s2: "appendAll calls b1 = (rs2, b2)" by (cases "appendAll calls b1")
  from Cons.prems(3) c s1 s2 have eq: "rs = r # rs2" "bufp' = b2" by auto
  with Cons.prems(4) have r1: "r = 1" and rs2: "\<forall>r \<in> set rs2. r = 1" by auto
  from Cons.prems(1) c have ra: "resizing alloc" by simp
  from bufAppend_ok_step [OF ra Cons.prems(2)] s1 r1 obtain buf1 where
    b1: "b1 = Some buf1" "buf_inv buf1"
      "bytes_of (data buf1) (len buf1) = bytes_of (data buf) (len buf) @ chunk d" by blast
  from Cons.prems(1) have "\<forall>c \<in> set calls. resizing (fst c)" by simp
  from Cons.IH [OF this b1(2) s2 [unfolded b1(1)] rs2] b1(3) eq c show ?case by auto
qed

lemma buf_inv_length: "buf_inv b \<Longrightarrow> length (bytes_of (data b) (len b)) = len b"
  by (auto simp: buf_inv_def bytes_of_def split: option.splits)

lemma buf_inv_emptyBuf: "buf_inv emptyBuf"
  by (simp add: buf_inv_def emptyBuf_def)

text \<open>
  C3. When \<^verbatim>\<open>bufAppend\<close> of a non-empty block fails, the buffer needed to grow and the
  allocator returned null for the aligned size; the buffer after the call is the buffer
  before it, in its storage, length and size, so the same append can be tried again: it
  then does what it would have done the first time.
\<close>

theorem bufAppend_failure_leaves_buffer:
  assumes "src \<noteq> []" "fst (bufAppend alloc (Some buf) (Some src)) = 0"
  shows "snd (bufAppend alloc (Some buf) (Some src)) = Some buf
     \<and> size' buf < alignBufSize (len buf + length src)
     \<and> alloc (data buf) (alignBufSize (len buf + length src)) = None
     \<and> (\<forall>alloc'. bufAppend alloc' (snd (bufAppend alloc (Some buf) (Some src))) (Some src)
                  = bufAppend alloc' (Some buf) (Some src))"
proof -
  from bufAppend_fail_same [OF assms(2)]
  have same: "snd (bufAppend alloc (Some buf) (Some src)) = Some buf" .
  from bufAppend_fail_iff [OF assms(1)] assms(2)
  have "size' buf < alignBufSize (len buf + length src)
      \<and> alloc (data buf) (alignBufSize (len buf + length src)) = None" by blast
  with same show ?thesis by simp
qed

theorem bufAppend_failure_leaves_buffer_witness:
  "''a'' \<noteq> [] \<and> fst (bufAppend (defaultAlloc (\<lambda>n. n \<le> 1024) CHR ''_'') (Some fullBuf) (Some ''a'')) = 0
   \<and> snd (bufAppend (defaultAlloc (\<lambda>n. n \<le> 1024) CHR ''_'') (Some fullBuf) (Some ''a'')) = Some fullBuf
   \<and> buf_inv fullBuf"
proof -
  have h1: "''a'' \<noteq> []" by simp
  have h2: "fst (bufAppend (defaultAlloc (\<lambda>n. n \<le> 1024) CHR ''_'') (Some fullBuf) (Some ''a'')) = 0"
    by (simp add: bufAppend_def fullBuf_def alignBufSize_def IO_BUF_SIZE_def defaultAlloc_def Let_def)
  have h3: "buf_inv fullBuf" by (simp add: buf_inv_def fullBuf_def)
  from bufAppend_failure_leaves_buffer [OF h1 h2] h1 h2 h3 show ?thesis by simp
qed

text \<open>
  C7. After any run of \<^verbatim>\<open>bufAppend\<close> calls on an empty buffer that all succeed, with
  allocators that resize, \<^verbatim>\<open>bufExtract\<close> returns the concatenation of the appended
  chunks and its length; afterwards the buffer has no storage, length 0 and size 0, and
  \<^verbatim>\<open>bufHasData\<close> is false.
\<close>

theorem append_extract_roundtrip:
  assumes "\<forall>c \<in> set calls. resizing (fst c)"
      "\<forall>r \<in> set (fst (appendAll calls (Some emptyBuf))). r = 1"
  shows "bytes_of (fst (bufExtract (snd (appendAll calls (Some emptyBuf))) l0))
                  (fst (snd (bufExtract (snd (appendAll calls (Some emptyBuf))) l0)))
           = concat (map (chunk \<circ> snd) calls)
     \<and> fst (snd (bufExtract (snd (appendAll calls (Some emptyBuf))) l0))
           = length (concat (map (chunk \<circ> snd) calls))
     \<and> snd (snd (bufExtract (snd (appendAll calls (Some emptyBuf))) l0))
           = Some \<lparr>data = None, len = 0, size' = 0\<rparr>
     \<and> \<not> bufHasData (snd (snd (bufExtract (snd (appendAll calls (Some emptyBuf))) l0)))"
proof -
  obtain rs bufp where run: "appendAll calls (Some emptyBuf) = (rs, bufp)"
    by (cases "appendAll calls (Some emptyBuf)")
  with assms(2) have ok: "\<forall>r \<in> set rs. r = 1" by simp
  from appendAll_ok [OF assms(1) buf_inv_emptyBuf run ok] obtain buf' where
    b: "bufp = Some buf'" "buf_inv buf'"
       "bytes_of (data buf') (len buf') = concat (map (chunk \<circ> snd) calls)"
    by (auto simp: emptyBuf_def bytes_of_def)
  from buf_inv_length [OF b(2)] b(3) have "len buf' = length (concat (map (chunk \<circ> snd) calls))"
    by simp
  with b run show ?thesis
    by (simp add: bufExtract_def resetBuf_def bufHasData_def)
qed

theorem append_extract_roundtrip_witness:
  "resizing (defaultAlloc (\<lambda>n. True) CHR ''_'')
   \<and> fst (appendAll abcdeCalls (Some emptyBuf)) = [1, 1, 1]
   \<and> bytes_of (fst (bufExtract (snd (appendAll abcdeCalls (Some emptyBuf))) 0))
         (fst (snd (bufExtract (snd (appendAll abcdeCalls (Some emptyBuf))) 0))) = ''ABCDE''
   \<and> fst (snd (bufExtract (snd (appendAll abcdeCalls (Some emptyBuf))) 0)) = length ''ABCDE''
   \<and> \<not> bufHasData (snd (snd (bufExtract (snd (appendAll abcdeCalls (Some emptyBuf))) 0)))"
proof -
  have h1: "\<forall>c \<in> set abcdeCalls. resizing (fst c)"
    by (simp add: abcdeCalls_def resizing_defaultAlloc)
  have rs: "fst (appendAll abcdeCalls (Some emptyBuf)) = [1, 1, 1]"
    by (simp add: abcdeCalls_def bufAppend_def emptyBuf_def alignBufSize_def IO_BUF_SIZE_def
        defaultAlloc_def Let_def memcpy_at_def)
  have h2: "\<forall>r \<in> set (fst (appendAll abcdeCalls (Some emptyBuf))). r = 1"
    unfolding rs by simp
  have c: "concat (map (chunk \<circ> snd) abcdeCalls) = ''ABCDE''"
    by (simp add: abcdeCalls_def chunk_def)
  from append_extract_roundtrip [OF h1 h2, of 0] rs resizing_defaultAlloc show ?thesis
    unfolding c by blast
qed

section \<open>Properties of the socket primitives\<close>

text \<open>
  What \<^verbatim>\<open>socketRead\<close> does on a descriptor with bytes queued, by the result of the
  append.
\<close>

lemma bufAppend_fail_buf:
  "fst (bufAppend alloc bufp d) = 0 \<Longrightarrow> snd (bufAppend alloc bufp d) = bufp"
  by (cases bufp) (auto simp: bufAppend_def Let_def split: option.splits if_splits)

lemma take_min_length: "take (min (length q) n) q = take n q"
  by (simp add: min_def)

lemma drop_min_length: "drop (min (length q) n) q = drop n q"
  by (simp add: min_def)

lemma socketRead_data:
  assumes "fd \<in> openFds w" "rxState w fd \<noteq> RxError" "rxQueue w fd \<noteq> []"
  shows "socketRead alloc fd bufp w =
      (if fst (bufAppend alloc bufp (Some (take IO_BUF_SIZE (rxQueue w fd)))) \<noteq> 0
       then ((1, snd (bufAppend alloc bufp (Some (take IO_BUF_SIZE (rxQueue w fd))))),
             w\<lparr>rxQueue := (rxQueue w)(fd := drop IO_BUF_SIZE (rxQueue w fd)),
               trace := trace w @ [Sys_recv fd IO_BUF_SIZE True,
                                   Sys_recv fd (min (length (rxQueue w fd)) IO_BUF_SIZE) False]\<rparr>)
       else ((0, bufp), w\<lparr>trace := trace w @ [Sys_recv fd IO_BUF_SIZE True]\<rparr>))"
proof -
  let ?q = "rxQueue w fd"
  have pos: "0 < length (take IO_BUF_SIZE ?q)"
    using assms(3) by (simp add: IO_BUF_SIZE_def)
  have peek: "sys_recv fd IO_BUF_SIZE True w =
      ((int (length (take IO_BUF_SIZE ?q)), take IO_BUF_SIZE ?q), emit (Sys_recv fd IO_BUF_SIZE True) w)"
    using assms by (simp add: sys_recv_def Let_def)
  have cons: "snd (sys_recv fd (length (take IO_BUF_SIZE ?q)) False (emit (Sys_recv fd IO_BUF_SIZE True) w))
      = w\<lparr>rxQueue := (rxQueue w)(fd := drop IO_BUF_SIZE ?q),
               trace := trace w @ [Sys_recv fd IO_BUF_SIZE True,
                                   Sys_recv fd (min (length ?q) IO_BUF_SIZE) False]\<rparr>"
    using assms by (simp add: sys_recv_def Let_def emit_def min_def)
  show ?thesis
  proof (cases "fst (bufAppend alloc bufp (Some (take IO_BUF_SIZE ?q))) = 0")
    case True
    with bufAppend_fail_buf [OF True] pos show ?thesis
      by (simp add: socketRead_def peek Let_def split_beta emit_def take_min_length)
  next
    case False
    with pos cons show ?thesis
      by (simp add: socketRead_def peek Let_def split_beta take_min_length)
  qed
qed

text \<open>
  C1. A read on a descriptor with queued bytes peeks at them first (the first
  \<^verbatim>\<open>recv\<close> has \<^verbatim>\<open>MSG_PEEK\<close> and leaves the queue as it is) and appends them to
  the buffer. If the append succeeds, exactly these bytes are taken from the queue by a
  second \<^verbatim>\<open>recv\<close> and the result is 1. If the append fails, the result is 0, the
  buffer and the queue are unchanged and no second \<^verbatim>\<open>recv\<close> is made, so a later read
  whose append succeeds gets the same bytes.
\<close>

theorem socketRead_peek_then_consume:
  fixes alloc :: bufAlloc_t and bufp :: "buf_t option" and w :: world and fd :: int
  assumes "fd \<in> openFds w" "rxState w fd \<noteq> RxError" "rxQueue w fd \<noteq> []"
  defines "avail \<equiv> take IO_BUF_SIZE (rxQueue w fd)"
  defines "r \<equiv> socketRead alloc fd bufp w"
  shows "(fst (bufAppend alloc bufp (Some avail)) \<noteq> 0 \<longrightarrow>
            fst r = (1, snd (bufAppend alloc bufp (Some avail)))
          \<and> rxQueue (snd r) = (rxQueue w)(fd := drop (length avail) (rxQueue w fd))
          \<and> trace (snd r) = trace w @ [Sys_recv fd IO_BUF_SIZE True,
                                        Sys_recv fd (length avail) False])
       \<and> (fst (bufAppend alloc bufp (Some avail)) = 0 \<longrightarrow>
            fst r = (0, bufp)
          \<and> rxQueue (snd r) = rxQueue w
          \<and> trace (snd r) = trace w @ [Sys_recv fd IO_BUF_SIZE True]
          \<and> (\<forall>alloc'. fst (bufAppend alloc' bufp (Some avail)) \<noteq> 0 \<longrightarrow>
                fst (socketRead alloc' fd bufp (snd r))
                  = (1, snd (bufAppend alloc' bufp (Some avail)))
              \<and> rxQueue (snd (socketRead alloc' fd bufp (snd r))) fd
                  = drop (length avail) (rxQueue w fd)))"
proof -
  have la: "length avail = min (length (rxQueue w fd)) IO_BUF_SIZE"
    by (simp add: avail_def)
  have dr: "drop (length avail) (rxQueue w fd) = drop IO_BUF_SIZE (rxQueue w fd)"
    by (simp add: la min_def)
  note first = socketRead_data [OF assms(1-3), of alloc bufp, folded avail_def r_def]
  have ok: "fst (bufAppend alloc bufp (Some avail)) \<noteq> 0 \<longrightarrow>
            fst r = (1, snd (bufAppend alloc bufp (Some avail)))
          \<and> rxQueue (snd r) = (rxQueue w)(fd := drop (length avail) (rxQueue w fd))
          \<and> trace (snd r) = trace w @ [Sys_recv fd IO_BUF_SIZE True,
                                        Sys_recv fd (length avail) False]"
    using first by (simp add: la drop_min_length)
  have fail: "fst (bufAppend alloc bufp (Some avail)) = 0 \<longrightarrow>
            fst r = (0, bufp)
          \<and> rxQueue (snd r) = rxQueue w
          \<and> trace (snd r) = trace w @ [Sys_recv fd IO_BUF_SIZE True]
          \<and> (\<forall>alloc'. fst (bufAppend alloc' bufp (Some avail)) \<noteq> 0 \<longrightarrow>
                fst (socketRead alloc' fd bufp (snd r))
                  = (1, snd (bufAppend alloc' bufp (Some avail)))
              \<and> rxQueue (snd (socketRead alloc' fd bufp (snd r))) fd
                  = drop (length avail) (rxQueue w fd))"
  proof
    assume f: "fst (bufAppend alloc bufp (Some avail)) = 0"
    with first have r: "r = ((0, bufp), w\<lparr>trace := trace w @ [Sys_recv fd IO_BUF_SIZE True]\<rparr>)"
      by simp
    let ?w1 = "w\<lparr>trace := trace w @ [Sys_recv fd IO_BUF_SIZE True]\<rparr>"
    have h: "fd \<in> openFds ?w1" "rxState ?w1 fd \<noteq> RxError" "rxQueue ?w1 fd \<noteq> []"
      using assms(1-3) by simp_all
    have later: "\<And>alloc'. fst (bufAppend alloc' bufp (Some avail)) \<noteq> 0 \<Longrightarrow>
                fst (socketRead alloc' fd bufp ?w1)
                  = (1, snd (bufAppend alloc' bufp (Some avail)))
              \<and> rxQueue (snd (socketRead alloc' fd bufp ?w1)) fd
                  = drop (length avail) (rxQueue w fd)"
      using socketRead_data [OF h] by (simp add: avail_def drop_min_length)
    from r later show "fst r = (0, bufp)
          \<and> rxQueue (snd r) = rxQueue w
          \<and> trace (snd r) = trace w @ [Sys_recv fd IO_BUF_SIZE True]
          \<and> (\<forall>alloc'. fst (bufAppend alloc' bufp (Some avail)) \<noteq> 0 \<longrightarrow>
                fst (socketRead alloc' fd bufp (snd r))
                  = (1, snd (bufAppend alloc' bufp (Some avail)))
              \<and> rxQueue (snd (socketRead alloc' fd bufp (snd r))) fd
                  = drop (length avail) (rxQueue w fd))"
      by simp
  qed
  from ok fail show ?thesis by blast
qed

theorem socketRead_peek_then_consume_witness:
  "5 \<in> openFds helloWorld \<and> rxState helloWorld 5 \<noteq> RxError \<and> rxQueue helloWorld 5 \<noteq> []
   \<and> fst (bufAppend noMemory (Some emptyBuf) (Some ''hello'')) = 0
   \<and> fst (socketRead noMemory 5 (Some emptyBuf) helloWorld) = (0, Some emptyBuf)
   \<and> rxQueue (snd (socketRead noMemory 5 (Some emptyBuf) helloWorld)) 5 = ''hello''
   \<and> fst (bufAppend (defaultAlloc (\<lambda>n. True) CHR ''_'') (Some emptyBuf) (Some ''hello'')) = 1
   \<and> fst (fst (socketRead (defaultAlloc (\<lambda>n. True) CHR ''_'') 5 (Some emptyBuf)
               (snd (socketRead noMemory 5 (Some emptyBuf) helloWorld)))) = 1
   \<and> rxQueue (snd (socketRead (defaultAlloc (\<lambda>n. True) CHR ''_'') 5 (Some emptyBuf)
               (snd (socketRead noMemory 5 (Some emptyBuf) helloWorld)))) 5 = []"
proof -
  have h: "5 \<in> openFds helloWorld" "rxState helloWorld 5 \<noteq> RxError" "rxQueue helloWorld 5 \<noteq> []"
    by (simp_all add: helloWorld_def)
  have av: "take IO_BUF_SIZE (rxQueue helloWorld 5) = ''hello''"
    by (simp add: helloWorld_def IO_BUF_SIZE_def)
  have f: "fst (bufAppend noMemory (Some emptyBuf) (Some ''hello'')) = 0"
    by (simp add: bufAppend_def noMemory_def emptyBuf_def alignBufSize_def IO_BUF_SIZE_def Let_def)
  have g: "fst (bufAppend (defaultAlloc (\<lambda>n. True) CHR ''_'') (Some emptyBuf) (Some ''hello'')) = 1"
    by (simp add: bufAppend_def defaultAlloc_def emptyBuf_def alignBufSize_def IO_BUF_SIZE_def Let_def)
  have q: "rxQueue helloWorld = (\<lambda>fd. [])(5 := ''hello'')"
    by (simp add: helloWorld_def)
  from socketRead_peek_then_consume [OF h, of noMemory "Some emptyBuf", unfolded av] f g h
  show ?thesis by (simp add: q)
qed

section \<open>Properties of the registry and the reactor\<close>

subsection \<open>Soft close and the empty registry\<close>

text \<open>
  C9. \<^verbatim>\<open>serverCloseSocket\<close> on a listening socket or on a descriptor out of range
  returns the registry as it is. On a client descriptor in range it clears
  \<open>keepAlive\<close> and adds the descriptor to the write set: the read set,
  \<^verbatim>\<open>_highestSocket\<close>, the buffers and the role of the socket and every other record
  are unchanged.
\<close>

theorem serverCloseSocket_frame:
  "(isServer (sockets s fd) \<or> \<not> isValidSocket fd \<longrightarrow> serverCloseSocket fd s = s)
   \<and> (isValidSocket fd \<and> \<not> isServer (sockets s fd) \<longrightarrow>
        \<not> keepAlive (sockets (serverCloseSocket fd s) fd)
      \<and> socketWriteSet (serverCloseSocket fd s) = insert fd (socketWriteSet s)
      \<and> socketReadSet (serverCloseSocket fd s) = socketReadSet s
      \<and> highestSocket (serverCloseSocket fd s) = highestSocket s
      \<and> iBuf (sockets (serverCloseSocket fd s) fd) = iBuf (sockets s fd)
      \<and> oBuf (sockets (serverCloseSocket fd s) fd) = oBuf (sockets s fd)
      \<and> isServer (sockets (serverCloseSocket fd s) fd) = isServer (sockets s fd)
      \<and> (\<forall>fd'. fd' \<noteq> fd \<longrightarrow> sockets (serverCloseSocket fd s) fd' = sockets s fd'))"
  by (simp add: serverCloseSocket_def enableSocketWrite_def)

theorem serverCloseSocket_frame_witness:
  "isServer (sockets clientAt5 3) \<and> serverCloseSocket 3 clientAt5 = clientAt5
   \<and> \<not> isValidSocket 1024 \<and> serverCloseSocket 1024 clientAt5 = clientAt5
   \<and> \<not> isValidSocket (- 1) \<and> serverCloseSocket (- 1) clientAt5 = clientAt5
   \<and> isValidSocket 5 \<and> \<not> isServer (sockets clientAt5 5) \<and> 5 \<in> socketReadSet clientAt5
   \<and> keepAlive (sockets clientAt5 5)
   \<and> \<not> keepAlive (sockets (serverCloseSocket 5 clientAt5) 5)
   \<and> socketWriteSet (serverCloseSocket 5 clientAt5) = {5}
   \<and> socketReadSet (serverCloseSocket 5 clientAt5) = {3, 5}
   \<and> highestSocket (serverCloseSocket 5 clientAt5) = 5"
proof -
  have v: "isValidSocket 5" "\<not> isValidSocket 1024" "\<not> isValidSocket (- 1)"
    by (simp_all add: isValidSocket_def INVALID_SOCKET_def SOCKET_MAX_def)
  have c: "isServer (sockets clientAt5 3)" "\<not> isServer (sockets clientAt5 5)"
     "5 \<in> socketReadSet clientAt5" "keepAlive (sockets clientAt5 5)"
     "socketWriteSet clientAt5 = {}" "socketReadSet clientAt5 = {3, 5}" "highestSocket clientAt5 = 5"
    by (simp_all add: clientAt5_def)
  from serverCloseSocket_frame [of clientAt5 3] serverCloseSocket_frame [of clientAt5 1024]
    serverCloseSocket_frame [of clientAt5 "- 1"] serverCloseSocket_frame [of clientAt5 5] v c
  show ?thesis by simp
qed

text \<open>
  C8. When \<^verbatim>\<open>_highestSocket\<close> is negative, as the sentinel is, \<^verbatim>\<open>serverExec\<close>
  returns 2 and leaves the registry and the world as they are: no \<^verbatim>\<open>select\<close>, no
  other system call and no handler invocation is added to the trace.
\<close>

theorem serverExec_none_active:
  assumes "highestSocket s < 0"
  shows "serverExec cb alloc sel (s, w) = Some (2, (s, w))"
  using assms by (simp add: serverExec_def)

theorem serverExec_none_active_witness:
  "highestSocket (snd serverPrepare) = INVALID_SOCKET \<and> highestSocket (snd serverPrepare) < 0
   \<and> serverExec (Some (\<lambda>ctx s. s\<lparr>highestSocket := 0\<rparr>)) noMemory (SelectReady {0} {0})
        (snd serverPrepare, quietWorld) = Some (2, (snd serverPrepare, quietWorld))"
proof -
  have h: "highestSocket (snd serverPrepare) < 0"
    by (simp add: serverPrepare_def INVALID_SOCKET_def)
  from serverExec_none_active [OF h] h show ?thesis
    by (simp add: serverPrepare_def)
qed

subsection \<open>The accept race\<close>

text \<open>
  \<^verbatim>\<open>_handleServerInput\<close> when \<^verbatim>\<open>accept\<close> finds no connection waiting.
\<close>

lemma handleServerInput_again:
  assumes "sfd \<in> openFds w" "backlog w sfd = []"
  shows "handleServerInput cb sfd (s, w) =
           (s, w\<lparr>trace := trace w @ [Sys_accept sfd, Sys_close SOCKET_MAX],
                  openFds := openFds w - {SOCKET_MAX}\<rparr>)"
  using assms
  by (simp add: handleServerInput_def socketAccept_def sys_accept_def Let_def addSocket_def
      isValidSocket_def socketClose_def sys_close_def emit_def SOCKET_MAX_def)

text \<open>
  C6. The accept race at a concrete input: the listening socket 3 is ready, \<^verbatim>\<open>accept\<close>
  finds no connection (\<^verbatim>\<open>EAGAIN\<close>) and descriptor 1024 is open in the process.
  \<^verbatim>\<open>socketAccept\<close> returns \<^verbatim>\<open>SOCKET_MAX\<close>; \<^verbatim>\<open>_handleServerInput\<close> leaves the
  registry as it is and invokes no handler, but it calls \<^verbatim>\<open>socketClose\<close> on the value
  returned: descriptor 1024 is closed.
\<close>

theorem accept_again_closes_SOCKET_MAX:
  "3 \<in> openFds raceWorld \<and> backlog raceWorld 3 = [] \<and> 1024 \<in> openFds raceWorld
   \<and> fst (socketAccept 3 raceWorld) = SOCKET_MAX
   \<and> fst (handleServerInput cb 3 (clientAt5, raceWorld)) = clientAt5
   \<and> trace (snd (handleServerInput cb 3 (clientAt5, raceWorld))) = [Sys_accept 3, Sys_close 1024]
   \<and> openFds (snd (handleServerInput cb 3 (clientAt5, raceWorld))) = {3, 5}"
proof -
  have h: "3 \<in> openFds raceWorld" "backlog raceWorld 3 = []" "1024 \<in> openFds raceWorld"
    by (simp_all add: raceWorld_def)
  have a: "fst (socketAccept 3 raceWorld) = SOCKET_MAX"
    by (simp add: socketAccept_def sys_accept_def raceWorld_def Let_def)
  have o: "openFds raceWorld - {SOCKET_MAX} = {3, 5}" "trace raceWorld = []"
    by (auto simp: raceWorld_def SOCKET_MAX_def)
  from handleServerInput_again [OF h(1,2), of cb clientAt5] h a o show ?thesis
    by (simp add: SOCKET_MAX_def)
qed

subsection \<open>Writing and the deferred close\<close>

lemma resetBuf_emptyBuf: "resetBuf (buf :: buf_t) = emptyBuf"
  by (simp add: resetBuf_def emptyBuf_def)

text \<open>What \<^verbatim>\<open>socketWrite\<close> does when the kernel has room for \<open>room\<close> bytes.\<close>

lemma socketWrite_room:
  assumes inv: "buf_inv buf" and has: "bufHasData (Some buf)"
    and op: "fd \<in> openFds w" and tx: "txState w fd = TxRoom room"
  defines "bytes \<equiv> bytes_of (data buf) (len buf)"
  defines "n \<equiv> min room (len buf)"
  shows "socketWrite alloc fd (Some buf) w =
           ((if n = 0 then 0 else 1,
             if n < len buf then snd (bufAppend alloc (Some emptyBuf) (Some (drop n bytes)))
             else Some emptyBuf),
            w\<lparr>wire := (wire w)(fd := wire w fd @ take n bytes),
              txState := (txState w)(fd := TxRoom (room - n)),
              trace := trace w @ [Sys_send fd bytes]\<rparr>)"
proof -
  from inv has obtain d where d: "data buf = Some d" "length d = size' buf" "len buf \<le> size' buf"
    "0 < len buf"
    by (auto simp: buf_inv_def bufHasData_def split: option.splits)
  have lb: "length bytes = len buf" using d by (simp add: bytes_def bytes_of_def)
  have ex: "bufExtract (Some buf) 0 = (Some d, len buf, Some emptyBuf)"
    by (simp add: bufExtract_def d resetBuf_emptyBuf)
  have bo: "bytes_of (Some d) (len buf) = bytes" by (simp add: bytes_def d)
  have snd: "sys_send fd bytes w =
       (int n, w\<lparr>wire := (wire w)(fd := wire w fd @ take n bytes),
              txState := (txState w)(fd := TxRoom (room - n)),
              trace := trace w @ [Sys_send fd bytes]\<rparr>)"
    using op tx by (simp add: sys_send_def Let_def emit_def n_def lb)
  have suf: "take (len buf - n) (drop n d) = drop n bytes"
    by (simp add: bytes_def d bytes_of_def drop_take)
  have tb: "take (len buf) d = bytes" by (simp add: bytes_def d bytes_of_def)
  show ?thesis
    by (simp add: socketWrite_def has ex bo snd Let_def suf tb)
qed

text \<open>Appending a non-empty block to the empty buffer.\<close>

lemma bufAppend_emptyBuf:
  assumes "src \<noteq> []"
  shows "bufAppend alloc (Some emptyBuf) (Some src) =
           (case alloc None (alignBufSize (length src)) of
              None \<Rightarrow> (0, Some emptyBuf)
            | Some newData \<Rightarrow>
                (1, Some \<lparr>data = Some (src @ drop (length src) newData), len = length src,
                          size' = alignBufSize (length src)\<rparr>))"
proof -
  from assms have "0 < length src" by simp
  with alignBufSize_ge [of "length src"] have "0 < alignBufSize (length src)" by linarith
  with assms show ?thesis
    by (simp add: bufAppend_def emptyBuf_def Let_def memcpy_at_def split: option.splits)
qed

lemma invokeCallback_world:
  "snd (invokeCallback cb ev sfd cfd ib ob (s, w)) = w\<lparr>trace := trace w @ fired cb ev sfd cfd ib ob\<rparr>"
  by (cases cb) (simp_all add: invokeCallback_def fired_def emit_def Let_def)

lemma invokeCallback_leaves:
  assumes "handler_leaves cb
             \<lparr>event = ev, sFd = sfd, cFd = cfd, ctx_iBuf = ib, ctx_oBuf = ob\<rparr> s fd"
  shows "sockets (fst (invokeCallback cb ev sfd cfd ib ob (s, w))) fd = sockets s fd"
    and "(fd \<in> socketWriteSet (fst (invokeCallback cb ev sfd cfd ib ob (s, w))))
           = (fd \<in> socketWriteSet s)"
    and "(fd \<in> socketReadSet (fst (invokeCallback cb ev sfd cfd ib ob (s, w))))
           = (fd \<in> socketReadSet s)"
  using assms by (cases cb; simp add: invokeCallback_def handler_leaves_def Let_def)+



text \<open>
  \<^verbatim>\<open>_handleOutput\<close> on a socket that the handler leaves as it is in the write event
  of the step: after a partial write whose rest is stored again, and after a write of the
  whole buffer of a client that is not kept alive. When \<^verbatim>\<open>socketWrite\<close> returns 0 the
  socket is removed, whatever the handler does.
\<close>

lemma handleOutput_partial:
  fixes alloc :: bufAlloc_t
  assumes inv: "buf_inv (oBuf (sockets s cfd))" and has: "bufHasData (Some (oBuf (sockets s cfd)))"
    and op: "cfd \<in> openFds w" and tx: "txState w cfd = TxRoom room"
    and room: "0 < room" "room < len (oBuf (sockets s cfd))"
    and al: "alloc None (alignBufSize (len (oBuf (sockets s cfd)) - room)) = Some newData"
    and lv: "handler_leaves cb (writeContext cfd) (atWriteEvent alloc cfd (s, w)) cfd"
  defines "bytes \<equiv> bytes_of (data (oBuf (sockets s cfd))) (len (oBuf (sockets s cfd)))"
  defines "r \<equiv> handleOutput cb alloc cfd (s, w)"
  shows "sockets (fst r) cfd = (sockets s cfd)
            \<lparr>oBuf := \<lparr>data = Some (drop room bytes @ drop (len (oBuf (sockets s cfd)) - room) newData),
                      len = len (oBuf (sockets s cfd)) - room,
                      size' = alignBufSize (len (oBuf (sockets s cfd)) - room)\<rparr>\<rparr>"
    and "(cfd \<in> socketWriteSet (fst r)) = (cfd \<in> socketWriteSet s)"
    and "(cfd \<in> socketReadSet (fst r)) = (cfd \<in> socketReadSet s)"
    and "snd r = w\<lparr>wire := (wire w)(cfd := wire w cfd @ take room bytes),
                   txState := (txState w)(cfd := TxRoom 0),
                   trace := trace w @ [Sys_send cfd bytes] @
                     fired cb EVENT_SOCKET_WRITE INVALID_SOCKET cfd (Some (IBuf cfd)) (Some (OBuf cfd))\<rparr>"
proof -
  let ?buf = "oBuf (sockets s cfd)"
  let ?new = "\<lparr>data = Some (drop room bytes @ drop (len ?buf - room) newData),
               len = len ?buf - room, size' = alignBufSize (len ?buf - room)\<rparr>"
  let ?w1 = "w\<lparr>wire := (wire w)(cfd := wire w cfd @ take room bytes),
                txState := (txState w)(cfd := TxRoom 0),
                trace := trace w @ [Sys_send cfd bytes]\<rparr>"
  let ?s1 = "s\<lparr>sockets := (sockets s)(cfd := (sockets s cfd)\<lparr>oBuf := ?new\<rparr>)\<rparr>"
  let ?st2 = "invokeCallback cb EVENT_SOCKET_WRITE INVALID_SOCKET cfd
                (Some (IBuf cfd)) (Some (OBuf cfd)) (?s1, ?w1)"
  have lb: "length bytes = len ?buf"
    using inv by (auto simp: bytes_def bytes_of_def buf_inv_def split: option.splits)
  have ne: "drop room bytes \<noteq> []" using room lb by simp
  have mn: "min room (len ?buf) = room" using room by simp
  have ap: "bufAppend alloc (Some emptyBuf) (Some (drop room bytes)) = (1, Some ?new)"
    using bufAppend_emptyBuf [OF ne, of alloc] al by (simp add: lb)
  have sw: "socketWrite alloc cfd (Some ?buf) w = ((1, Some ?new), ?w1)"
    using socketWrite_room [OF inv has op tx, of alloc] room
    by (simp add: mn ap bytes_def [symmetric])
  have at: "atWriteEvent alloc cfd (s, w) = ?s1"
    by (simp add: atWriteEvent_def sw stored_def)
  note lv' = lv [unfolded at writeContext_def]
  have hd: "bufHasData (Some (oBuf (sockets (fst ?st2) cfd)))"
    using invokeCallback_leaves(1) [OF lv', of ?w1] room
    by (simp add: bufHasData_def)
  have ho: "r = ?st2"
    unfolding r_def handleOutput_def using hd
    by (simp add: sw Let_def split_beta stored_def)
  show "sockets (fst r) cfd = (sockets s cfd)\<lparr>oBuf := ?new\<rparr>"
    unfolding ho by (simp add: invokeCallback_leaves(1) [OF lv'])
  show "(cfd \<in> socketWriteSet (fst r)) = (cfd \<in> socketWriteSet s)"
    unfolding ho by (simp add: invokeCallback_leaves(2) [OF lv'])
  show "(cfd \<in> socketReadSet (fst r)) = (cfd \<in> socketReadSet s)"
    unfolding ho by (simp add: invokeCallback_leaves(3) [OF lv'])
  show "snd r = w\<lparr>wire := (wire w)(cfd := wire w cfd @ take room bytes),
                   txState := (txState w)(cfd := TxRoom 0),
                   trace := trace w @ [Sys_send cfd bytes] @
                     fired cb EVENT_SOCKET_WRITE INVALID_SOCKET cfd (Some (IBuf cfd)) (Some (OBuf cfd))\<rparr>"
    unfolding ho by (simp add: invokeCallback_world)
qed







lemma abcde_facts:
  "buf_inv abcdeBuf" "bufHasData (Some abcdeBuf)"
  "bytes_of (data abcdeBuf) (len abcdeBuf) = ''ABCDE''" "len abcdeBuf = 5"
  "bytes_of (data abcdeBuf) 5 = ''ABCDE''"
  by (simp_all add: abcdeBuf_def buf_inv_def bufHasData_def bytes_of_def)

lemma plainAlloc_DE:
  "bufAppend plainAlloc (Some emptyBuf) (Some ''DE'')
     = (1, Some \<lparr>data = Some (''DE'' @ replicate 1022 CHR ''_''), len = 2, size' = 1024\<rparr>)"
  by (simp add: bufAppend_emptyBuf plainAlloc_def defaultAlloc_def alignBufSize_def IO_BUF_SIZE_def)


lemma roomWorld_facts:
  "5 \<in> openFds (roomWorld n)" "txState (roomWorld n) 5 = TxRoom n" "wire (roomWorld n) 5 = []"
  "trace (roomWorld n) = []" "openFds (roomWorld n) = {5}"
  by (simp_all add: roomWorld_def)

lemma socketWrite_abcde_3:
  "socketWrite plainAlloc 5 (Some abcdeBuf) (roomWorld 3) =
      ((1, Some \<lparr>data = Some (''DE'' @ replicate 1022 CHR ''_''), len = 2, size' = 1024\<rparr>),
       (roomWorld 3)\<lparr>wire := (wire (roomWorld 3))(5 := ''ABC''),
          txState := (txState (roomWorld 3))(5 := TxRoom 0),
          trace := [Sys_send 5 ''ABCDE'']\<rparr>)"
  using socketWrite_room [where alloc = plainAlloc and room = 3, OF abcde_facts(1,2) roomWorld_facts(1,2)]
  by (simp add: abcde_facts plainAlloc_DE roomWorld_facts)


text \<open>
  When the allocator cannot supply the storage for the rest of a partial write,
  \<^verbatim>\<open>socketWrite\<close> still returns 1 and leaves the buffer empty: the result of the
  \<^verbatim>\<open>bufAppend\<close> that stores the rest is not looked at, as it is in \<^verbatim>\<open>socketRead\<close>.
\<close>

lemma socketWrite_rest_dropped:
  assumes inv: "buf_inv buf" and has: "bufHasData (Some buf)"
    and op: "fd \<in> openFds w" and tx: "txState w fd = TxRoom room"
    and room: "0 < room" "room < len buf"
    and al: "alloc None (alignBufSize (len buf - room)) = None"
  shows "fst (socketWrite alloc fd (Some buf) w) = (1, Some emptyBuf)"
proof -
  have lb: "length (bytes_of (data buf) (len buf)) = len buf"
    using inv by (auto simp: bytes_of_def buf_inv_def split: option.splits)
  have ne: "drop room (bytes_of (data buf) (len buf)) \<noteq> []" using room lb by simp
  have mn: "min room (len buf) = room" using room by simp
  have "bufAppend alloc (Some emptyBuf) (Some (drop room (bytes_of (data buf) (len buf))))
          = (0, Some emptyBuf)"
    using bufAppend_emptyBuf [OF ne, of alloc] al by (simp add: lb)
  with socketWrite_room [OF inv has op tx, of alloc] room show ?thesis
    by (simp add: mn)
qed

text \<open>
  C2, as stated, fails. The output buffer holds \<open>ABCDE\<close>, the kernel takes \<open>ABC\<close> and
  \<^verbatim>\<open>socketWrite\<close> returns 1 with \<open>DE\<close> in the buffer. The handler clears the output
  buffer in the write event, as a handler may through the buffer operations: after the
  output step the buffer is empty and the descriptor is no longer in the write set.
\<close>

theorem partial_write_counterexample:
  "bufHasData (Some (oBuf (sockets writerAt5 5)))
   \<and> bytes_of (data (oBuf (sockets writerAt5 5))) (len (oBuf (sockets writerAt5 5))) = ''ABCDE''
   \<and> txState (roomWorld 3) 5 = TxRoom 3
   \<and> fst (fst (socketWrite plainAlloc 5 (Some (oBuf (sockets writerAt5 5))) (roomWorld 3))) = 1
   \<and> wire (snd (socketWrite plainAlloc 5 (Some (oBuf (sockets writerAt5 5))) (roomWorld 3))) 5
        = ''ABC''
   \<and> 5 \<in> socketWriteSet writerAt5
   \<and> 5 \<notin> socketWriteSet (fst (handleOutput clearOutput plainAlloc 5 (writerAt5, roomWorld 3)))
   \<and> \<not> bufHasData
         (Some (oBuf (sockets (fst (handleOutput clearOutput plainAlloc 5
                                      (writerAt5, roomWorld 3))) 5)))"
proof -
  have b: "oBuf (sockets writerAt5 5) = abcdeBuf" "5 \<in> socketWriteSet writerAt5"
    "keepAlive (sockets writerAt5 5)"
    by (simp_all add: writerAt5_def)
  have h: "5 \<notin> socketWriteSet (fst (handleOutput clearOutput plainAlloc 5 (writerAt5, roomWorld 3)))"
    "\<not> bufHasData
         (Some (oBuf (sockets (fst (handleOutput clearOutput plainAlloc 5
                                      (writerAt5, roomWorld 3))) 5)))"
    by (simp_all add: handleOutput_def b socketWrite_abcde_3 Let_def split_beta stored_def
        invokeCallback_def clearOutput_def bufClear_def resetBuf_def bufHasData_def
        disableSocketWrite_def)
  from h b abcde_facts roomWorld_facts [of 3] show ?thesis
    by (simp add: socketWrite_abcde_3)
qed

lemma socketWrite_nothing_sent:
  assumes "bufHasData (Some buf)"
    and "txState w fd = TxRoom 0 \<or> txState w fd = TxError \<or> fd \<notin> openFds w"
  shows "fst (fst (socketWrite alloc fd (Some buf) w)) = 0"
  using assms
  by (auto simp: socketWrite_def sys_send_def bufExtract_def Let_def split_beta)

text \<open>
  C2, amended. The output buffer of a socket holds a non-empty byte sequence. If the
  kernel takes \<open>room\<close> bytes, fewer than the buffer holds and more than none, and the
  allocator supplies the storage for the rest, then \<^verbatim>\<open>socketWrite\<close> returns 1, the
  bytes taken are the first \<open>room\<close> bytes and the buffer holds the rest in order; if the
  handler leaves the socket as it is in the write event of that step, the descriptor is
  still in the write set after \<^verbatim>\<open>_handleOutput\<close> and the buffer still holds the rest.
  If the kernel takes nothing or \<^verbatim>\<open>send\<close> fails, \<^verbatim>\<open>socketWrite\<close> returns 0.
\<close>

theorem partial_write_keeps_suffix:
  fixes s :: server and cfd :: int and w :: world and alloc :: bufAlloc_t and cb :: callback_t
  defines "buf \<equiv> oBuf (sockets s cfd)"
  defines "bytes \<equiv> bytes_of (data (oBuf (sockets s cfd))) (len (oBuf (sockets s cfd)))"
  defines "r \<equiv> socketWrite alloc cfd (Some (oBuf (sockets s cfd))) w"
  defines "h \<equiv> handleOutput cb alloc cfd (s, w)"
  assumes inv: "buf_inv buf" and has: "bufHasData (Some buf)"
  shows "(cfd \<in> openFds w \<and> txState w cfd = TxRoom room \<and> 0 < room \<and> room < len buf
          \<and> alloc None (alignBufSize (len buf - room)) \<noteq> None \<longrightarrow>
            fst (fst r) = 1
          \<and> bufHasData (snd (fst r))
          \<and> bytes_of (data (stored buf (snd (fst r)))) (len (stored buf (snd (fst r))))
               = drop room bytes
          \<and> wire (snd r) cfd = wire w cfd @ take room bytes
          \<and> (handler_leaves cb (writeContext cfd) (atWriteEvent alloc cfd (s, w)) cfd
              \<and> cfd \<in> socketWriteSet s \<longrightarrow>
                cfd \<in> socketWriteSet (fst h)
              \<and> cfd \<in> openFds (snd h)
              \<and> bytes_of (data (oBuf (sockets (fst h) cfd))) (len (oBuf (sockets (fst h) cfd)))
                   = drop room bytes))
       \<and> (txState w cfd = TxRoom 0 \<or> txState w cfd = TxError \<longrightarrow> fst (fst r) = 0)"
proof -
  have lb: "length bytes = len buf"
    using inv by (auto simp: bytes_def buf_def bytes_of_def buf_inv_def split: option.splits)
  have zero: "txState w cfd = TxRoom 0 \<or> txState w cfd = TxError \<longrightarrow> fst (fst r) = 0"
    using socketWrite_nothing_sent [OF has [unfolded buf_def], of w cfd alloc]
    by (auto simp: r_def)
  have part: "cfd \<in> openFds w \<and> txState w cfd = TxRoom room \<and> 0 < room \<and> room < len buf
          \<and> alloc None (alignBufSize (len buf - room)) \<noteq> None \<longrightarrow>
            fst (fst r) = 1
          \<and> bufHasData (snd (fst r))
          \<and> bytes_of (data (stored buf (snd (fst r)))) (len (stored buf (snd (fst r))))
               = drop room bytes
          \<and> wire (snd r) cfd = wire w cfd @ take room bytes
          \<and> (handler_leaves cb (writeContext cfd) (atWriteEvent alloc cfd (s, w)) cfd
              \<and> cfd \<in> socketWriteSet s \<longrightarrow>
                cfd \<in> socketWriteSet (fst h)
              \<and> cfd \<in> openFds (snd h)
              \<and> bytes_of (data (oBuf (sockets (fst h) cfd))) (len (oBuf (sockets (fst h) cfd)))
                   = drop room bytes)"
  proof
    assume a: "cfd \<in> openFds w \<and> txState w cfd = TxRoom room \<and> 0 < room \<and> room < len buf
          \<and> alloc None (alignBufSize (len buf - room)) \<noteq> None"
    then obtain newData where nd: "alloc None (alignBufSize (len buf - room)) = Some newData"
      by blast
    from a have op: "cfd \<in> openFds w" and tx: "txState w cfd = TxRoom room"
      and room: "0 < room" "room < len buf" by simp_all
    let ?new = "\<lparr>data = Some (drop room bytes @ drop (len buf - room) newData),
                 len = len buf - room, size' = alignBufSize (len buf - room)\<rparr>"
    have ne: "drop room bytes \<noteq> []" using room lb by simp
    have mn: "min room (len buf) = room" using room by simp
    have ap: "bufAppend alloc (Some emptyBuf) (Some (drop room bytes)) = (1, Some ?new)"
      using bufAppend_emptyBuf [OF ne, of alloc] nd by (simp add: lb)
    have sw: "r = ((1, Some ?new),
                   w\<lparr>wire := (wire w)(cfd := wire w cfd @ take room bytes),
                     txState := (txState w)(cfd := TxRoom 0),
                     trace := trace w @ [Sys_send cfd bytes]\<rparr>)"
      unfolding r_def
      using socketWrite_room [OF inv [unfolded buf_def] has [unfolded buf_def] op tx, of alloc] room
      by (simp add: mn [unfolded buf_def] ap [unfolded buf_def] bytes_def [symmetric] buf_def)
    have cont: "bytes_of (data ?new) (len ?new) = drop room bytes"
      using lb by (simp add: bytes_of_def)
    have hd: "bufHasData (Some ?new)" using room by (simp add: bufHasData_def)
    have out: "handler_leaves cb (writeContext cfd) (atWriteEvent alloc cfd (s, w)) cfd
              \<and> cfd \<in> socketWriteSet s \<longrightarrow>
                cfd \<in> socketWriteSet (fst h)
              \<and> cfd \<in> openFds (snd h)
              \<and> bytes_of (data (oBuf (sockets (fst h) cfd))) (len (oBuf (sockets (fst h) cfd)))
                   = drop room bytes"
    proof
      assume l: "handler_leaves cb (writeContext cfd) (atWriteEvent alloc cfd (s, w)) cfd
              \<and> cfd \<in> socketWriteSet s"
      note ho = handleOutput_partial [where alloc = alloc and newData = newData and s = s
          and cfd = cfd and w = w and room = room and cb = cb, OF inv [unfolded buf_def]
          has [unfolded buf_def] op tx room [unfolded buf_def] nd [unfolded buf_def]
          conjunct1 [OF l], folded h_def bytes_def buf_def]
      from ho(1) cont have "bytes_of (data (oBuf (sockets (fst h) cfd)))
          (len (oBuf (sockets (fst h) cfd))) = drop room bytes" by simp
      moreover from ho(2) l have "cfd \<in> socketWriteSet (fst h)" by simp
      moreover from ho(4) op have "cfd \<in> openFds (snd h)" by simp
      ultimately show "cfd \<in> socketWriteSet (fst h)
              \<and> cfd \<in> openFds (snd h)
              \<and> bytes_of (data (oBuf (sockets (fst h) cfd))) (len (oBuf (sockets (fst h) cfd)))
                   = drop room bytes" by simp
    qed
    from sw cont hd out show "fst (fst r) = 1
          \<and> bufHasData (snd (fst r))
          \<and> bytes_of (data (stored buf (snd (fst r)))) (len (stored buf (snd (fst r))))
               = drop room bytes
          \<and> wire (snd r) cfd = wire w cfd @ take room bytes
          \<and> (handler_leaves cb (writeContext cfd) (atWriteEvent alloc cfd (s, w)) cfd
              \<and> cfd \<in> socketWriteSet s \<longrightarrow>
                cfd \<in> socketWriteSet (fst h)
              \<and> cfd \<in> openFds (snd h)
              \<and> bytes_of (data (oBuf (sockets (fst h) cfd))) (len (oBuf (sockets (fst h) cfd)))
                   = drop room bytes)"
      by (simp add: stored_def)
  qed
  from part zero show ?thesis by blast
qed

lemma appendOn_leaves: "event ctx \<noteq> ev \<Longrightarrow> handler_leaves (appendOn ev) ctx s fd"
  by (simp add: handler_leaves_def appendOn_def)

theorem partial_write_keeps_suffix_witness:
  "buf_inv (oBuf (sockets writerAt5 5)) \<and> bufHasData (Some (oBuf (sockets writerAt5 5)))
   \<and> bytes_of (data (oBuf (sockets writerAt5 5))) (len (oBuf (sockets writerAt5 5))) = ''ABCDE''
   \<and> 5 \<in> openFds (roomWorld 3) \<and> txState (roomWorld 3) 5 = TxRoom 3
   \<and> plainAlloc None (alignBufSize (5 - 3)) \<noteq> None
   \<and> handler_leaves (appendOn EVENT_SOCKET_READ) (writeContext 5)
        (atWriteEvent plainAlloc 5 (writerAt5, roomWorld 3)) 5
   \<and> 5 \<in> socketWriteSet writerAt5
   \<and> fst (fst (socketWrite plainAlloc 5 (Some (oBuf (sockets writerAt5 5))) (roomWorld 3))) = 1
   \<and> bytes_of
        (data (stored (oBuf (sockets writerAt5 5))
           (snd (fst (socketWrite plainAlloc 5 (Some (oBuf (sockets writerAt5 5))) (roomWorld 3))))))
        (len (stored (oBuf (sockets writerAt5 5))
           (snd (fst (socketWrite plainAlloc 5 (Some (oBuf (sockets writerAt5 5))) (roomWorld 3))))))
        = ''DE''
   \<and> wire (snd (socketWrite plainAlloc 5 (Some (oBuf (sockets writerAt5 5))) (roomWorld 3))) 5
        = ''ABC''
   \<and> 5 \<in> socketWriteSet
         (fst (handleOutput (appendOn EVENT_SOCKET_READ) plainAlloc 5 (writerAt5, roomWorld 3)))
   \<and> bytes_of
        (data (oBuf (sockets (fst (handleOutput (appendOn EVENT_SOCKET_READ) plainAlloc 5
                                    (writerAt5, roomWorld 3))) 5)))
        (len (oBuf (sockets (fst (handleOutput (appendOn EVENT_SOCKET_READ) plainAlloc 5
                                   (writerAt5, roomWorld 3))) 5)))
        = ''DE''
   \<and> txState (roomWorld 0) 5 = TxRoom 0
   \<and> fst (fst (socketWrite plainAlloc 5 (Some (oBuf (sockets writerAt5 5))) (roomWorld 0))) = 0"
proof -
  have b: "oBuf (sockets writerAt5 5) = abcdeBuf" "5 \<in> socketWriteSet writerAt5"
    by (simp_all add: writerAt5_def)
  have inv: "buf_inv (oBuf (sockets writerAt5 5))"
    and has: "bufHasData (Some (oBuf (sockets writerAt5 5)))"
    by (simp_all add: b abcde_facts)
  have al: "plainAlloc None (alignBufSize (5 - 3)) \<noteq> None"
    by (simp add: plainAlloc_def defaultAlloc_def)
  have lv: "handler_leaves (appendOn EVENT_SOCKET_READ) (writeContext 5)
        (atWriteEvent plainAlloc 5 (writerAt5, roomWorld 3)) 5"
    by (rule appendOn_leaves) (simp add: writeContext_def)
  note t3 = partial_write_keeps_suffix [where s = writerAt5 and cfd = 5 and w = "roomWorld 3"
      and alloc = plainAlloc and cb = "appendOn EVENT_SOCKET_READ" and room = 3, OF inv has]
  note t0 = partial_write_keeps_suffix [where s = writerAt5 and cfd = 5 and w = "roomWorld 0"
      and alloc = plainAlloc and cb = "appendOn EVENT_SOCKET_READ" and room = 0, OF inv has]
  from t3 t0 inv has roomWorld_facts [of 3] roomWorld_facts [of 0] al lv b(2)
  show ?thesis
    by (simp add: b abcde_facts)
qed







subsection \<open>The highest descriptor\<close>

lemma reg_inv_finite: "reg_inv s \<Longrightarrow> finite (socketReadSet s)"
  by (auto simp: reg_inv_def intro: finite_subset)

lemma reg_inv_cong:
  "socketReadSet s' = socketReadSet s \<Longrightarrow> highestSocket s' = highestSocket s \<Longrightarrow>
   reg_inv s' = reg_inv s"
  by (simp add: reg_inv_def)

lemma reg_inv_highest_less: "reg_inv s \<Longrightarrow> highestSocket s < SOCKET_MAX"
proof (cases "socketReadSet s = {}")
  case True
  assume "reg_inv s"
  with True show ?thesis by (simp add: reg_inv_def INVALID_SOCKET_def SOCKET_MAX_def)
next
  case False
  assume r: "reg_inv s"
  from Max_in [OF reg_inv_finite [OF r] False] r False show ?thesis
    by (auto simp: reg_inv_def)
qed

lemma reg_inv_prepare: "reg_inv (snd serverPrepare)"
  by (simp add: reg_inv_def serverPrepare_def)

lemma reg_inv_addSocket:
  assumes "reg_inv s"
  shows "reg_inv (snd (addSocket fd s))"
proof (cases "isValidSocket fd")
  case False
  with assms show ?thesis by (simp add: addSocket_def)
next
  case True
  then have fd: "0 \<le> fd" "fd < SOCKET_MAX"
    by (simp_all add: isValidSocket_def INVALID_SOCKET_def)
  have fin: "finite (socketReadSet s)" by (rule reg_inv_finite [OF assms])
  show ?thesis
  proof (cases "socketReadSet s = {}")
    case e: True
    with assms have "highestSocket s = - 1" by (simp add: reg_inv_def INVALID_SOCKET_def)
    with True fd e show ?thesis by (simp add: addSocket_def reg_inv_def)
  next
    case ne: False
    with assms have h: "highestSocket s = Max (socketReadSet s)"
      and sub: "socketReadSet s \<subseteq> {0..<SOCKET_MAX}" by (simp_all add: reg_inv_def)
    have "Max (insert fd (socketReadSet s)) = max fd (Max (socketReadSet s))"
      using fin ne by simp
    with True fd h sub show ?thesis
      by (auto simp: addSocket_def reg_inv_def max_def)
  qed
qed

text \<open>
  The scan of \<^verbatim>\<open>_findHighestSocket\<close> returns the greatest descriptor of the read set
  below its start, or the sentinel; so the rescan in \<^verbatim>\<open>_removeSocket\<close> restores the
  invariant.
\<close>

lemma findFrom_Max:
  assumes "finite rs"
  shows "findFrom rs n =
           (if rs \<inter> {0..<int n} = {} then INVALID_SOCKET else Max (rs \<inter> {0..<int n}))"
proof (induction n)
  case 0
  show ?case by simp
next
  case (Suc i)
  have split: "{0..<int (Suc i)} = insert (int i) {0..<int i}" by auto
  show ?case
  proof (cases "int i \<in> rs")
    case True
    have fin: "finite (rs \<inter> {0..<int (Suc i)})" using assms by simp
    have mem: "int i \<in> rs \<inter> {0..<int (Suc i)}" using True by simp
    have "Max (rs \<inter> {0..<int (Suc i)}) = int i"
      by (rule Max_eqI [OF fin _ mem]) auto
    with True mem show ?thesis by auto
  next
    case False
    have "\<And>x. x \<in> rs \<Longrightarrow> x < int (Suc i) \<Longrightarrow> x < int i"
    proof -
      fix x assume a: "x \<in> rs" "x < int (Suc i)"
      with False have "x \<noteq> int i" by blast
      with a(2) show "x < int i" by simp
    qed
    then have "rs \<inter> {0..<int (Suc i)} = rs \<inter> {0..<int i}" by auto
    with False Suc.IH show ?thesis by simp
  qed
qed

lemma reg_inv_remove_set:
  fixes fd :: int
  assumes r: "reg_inv s1"
  defines "s2 \<equiv> s1\<lparr>socketReadSet := socketReadSet s1 - {fd}\<rparr>"
  shows "reg_inv (if fd = highestSocket s2
                  then s2\<lparr>highestSocket := findHighestSocket s2\<rparr> else s2)"
proof -
  let ?rs = "socketReadSet s1"
  have fin: "finite ?rs" by (rule reg_inv_finite [OF r])
  from r have sub: "?rs \<subseteq> {0..<SOCKET_MAX}" by (simp add: reg_inv_def)
  show ?thesis
  proof (cases "?rs = {}")
    case True
    with r have "highestSocket s1 = INVALID_SOCKET" by (simp add: reg_inv_def)
    with True show ?thesis
      by (simp add: s2_def reg_inv_def findHighestSocket_def INVALID_SOCKET_def)
  next
    case False
    with r have h: "highestSocket s1 = Max ?rs" by (simp add: reg_inv_def)
    have mx: "Max ?rs \<in> ?rs" by (rule Max_in [OF fin False])
    show ?thesis
    proof (cases "fd = Max ?rs")
      case True
      have lt: "\<And>x. x \<in> ?rs - {fd} \<Longrightarrow> x < Max ?rs"
        using Max_ge [OF fin] True by fastforce
      have ge0: "\<And>x. x \<in> ?rs \<Longrightarrow> 0 \<le> x" using sub by auto
      have nn: "0 \<le> Max ?rs" using mx ge0 by blast
      have nn': "int (nat (Max ?rs)) = Max ?rs" using nn by simp
      have int: "(?rs - {fd}) \<inter> {0..<Max ?rs} = ?rs - {fd}"
        using lt ge0 by auto
      have fin2: "finite (?rs - {fd})" using fin by simp
      have "findFrom (?rs - {fd}) (nat (Max ?rs)) =
              (if ?rs - {fd} = {} then INVALID_SOCKET else Max (?rs - {fd}))"
        using findFrom_Max [OF fin2, of "nat (Max ?rs)"] unfolding nn' int .
      with True h sub show ?thesis
        by (auto simp: s2_def reg_inv_def findHighestSocket_def)
    next
      case ne: False
      have in2: "Max ?rs \<in> ?rs - {fd}" using mx ne by auto
      have fin2: "finite (?rs - {fd})" using fin by simp
      have "Max (?rs - {fd}) = Max ?rs"
        by (rule Max_eqI [OF fin2 _ in2]) (use Max_ge [OF fin] in auto)
      with ne h sub in2 show ?thesis
        by (auto simp: s2_def reg_inv_def)
    qed
  qed
qed

text \<open>
  Every step of the reactor keeps the invariant when the handler does.
\<close>

lemma reg_inv_invokeCallback:
  assumes "reg_inv (fst st)" "handler_keeps_inv cb"
  shows "reg_inv (fst (invokeCallback cb ev a b i ob st))"
  using assms by (cases cb) (auto simp: invokeCallback_def handler_keeps_inv_def Let_def)

lemma reg_inv_removeSocket:
  assumes "reg_inv (fst st)" "handler_keeps_inv cb"
  shows "reg_inv (fst (removeSocket cb fd st))"
proof -
  define st1 where "st1 =
      (if isServer (sockets (fst st) fd)
       then invokeCallback cb EVENT_SOCKET_CLOSE fd INVALID_SOCKET None None st
       else invokeCallback cb EVENT_SOCKET_CLOSE INVALID_SOCKET fd None None st)"
  have r1: "reg_inv (fst st1)"
    unfolding st1_def using reg_inv_invokeCallback [OF assms] by simp
  let ?s2 = "(fst st1)\<lparr>socketReadSet := socketReadSet (fst st1) - {fd}\<rparr>"
  let ?X = "if fd = highestSocket ?s2 then ?s2\<lparr>highestSocket := findHighestSocket ?s2\<rparr> else ?s2"
  have x: "reg_inv ?X" by (rule reg_inv_remove_set [OF r1])
  have "socketReadSet (fst (removeSocket cb fd st)) = socketReadSet ?X"
    and "highestSocket (fst (removeSocket cb fd st)) = highestSocket ?X"
    by (simp_all add: removeSocket_def st1_def [symmetric] Let_def split_beta
        findHighestSocket_def)
  from reg_inv_cong [OF this] x show ?thesis by simp
qed

lemma reg_inv_checkClientSocket:
  assumes "reg_inv (fst st)" "handler_keeps_inv cb"
  shows "reg_inv (fst (checkClientSocket cb cfd st))"
  using assms reg_inv_removeSocket [OF assms]
  by (simp add: checkClientSocket_def enableSocketWrite_def reg_inv_def)

lemma reg_inv_handleServerInput:
  assumes "reg_inv (fst st)" "handler_keeps_inv cb"
  shows "reg_inv (fst (handleServerInput cb sfd st))"
proof -
  obtain cfd w1 where a: "socketAccept sfd (snd st) = (cfd, w1)"
    by (cases "socketAccept sfd (snd st)")
  obtain added s1 where b: "addSocket cfd (fst st) = (added, s1)"
    by (cases "addSocket cfd (fst st)")
  from reg_inv_addSocket [OF assms(1), of cfd] b have r1: "reg_inv s1" by simp
  have "reg_inv (fst (invokeCallback cb EVENT_SOCKET_ACCEPT sfd cfd
                      (Some (IBuf cfd)) (Some (OBuf cfd)) (s1, w1)))"
    by (rule reg_inv_invokeCallback) (simp_all add: r1 assms(2))
  from reg_inv_checkClientSocket [OF this assms(2)]
  have c: "reg_inv (fst (checkClientSocket cb cfd
                   (invokeCallback cb EVENT_SOCKET_ACCEPT sfd cfd
                      (Some (IBuf cfd)) (Some (OBuf cfd)) (s1, w1))))" .
  have d: "reg_inv (fst (removeSocket cb sfd (fst st, w1)))"
    by (rule reg_inv_removeSocket) (simp_all add: assms)
  from c d r1 show ?thesis
    by (simp add: handleServerInput_def a b Let_def)
qed

lemma reg_inv_handleClientInput:
  assumes "reg_inv (fst st)" "handler_keeps_inv cb"
  shows "reg_inv (fst (handleClientInput cb alloc cfd st))"
proof -
  obtain got buf' w1 where a:
    "socketRead alloc cfd (Some (iBuf (sockets (fst st) cfd))) (snd st) = ((got, buf'), w1)"
    by (cases "socketRead alloc cfd (Some (iBuf (sockets (fst st) cfd))) (snd st)") auto
  let ?s1 = "(fst st)\<lparr>sockets := (sockets (fst st))(cfd := (sockets (fst st) cfd)
                  \<lparr>iBuf := stored (iBuf (sockets (fst st) cfd)) buf'\<rparr>)\<rparr>"
  have r1: "reg_inv ?s1" using assms(1) by (simp add: reg_inv_def)
  have "reg_inv (fst (invokeCallback cb EVENT_SOCKET_READ INVALID_SOCKET cfd
                      (Some (IBuf cfd)) (Some (OBuf cfd)) (?s1, w1)))"
    by (rule reg_inv_invokeCallback) (simp_all add: r1 assms(2))
  from reg_inv_checkClientSocket [OF this assms(2)]
  have c: "reg_inv (fst (checkClientSocket cb cfd
                   (invokeCallback cb EVENT_SOCKET_READ INVALID_SOCKET cfd
                      (Some (IBuf cfd)) (Some (OBuf cfd)) (?s1, w1))))" .
  have d: "reg_inv (fst (removeSocket cb cfd (?s1, w1)))"
    by (rule reg_inv_removeSocket) (simp_all add: r1 assms(2))
  from c d show ?thesis
    by (simp add: handleClientInput_def a Let_def)
qed

lemma reg_inv_handleInput:
  assumes "reg_inv (fst st)" "handler_keeps_inv cb"
  shows "reg_inv (fst (handleInput cb alloc fd st))"
  using reg_inv_handleServerInput [OF assms] reg_inv_handleClientInput [OF assms]
  by (simp add: handleInput_def)

lemma reg_inv_handleOutput:
  assumes "reg_inv (fst st)" "handler_keeps_inv cb"
  shows "reg_inv (fst (handleOutput cb alloc cfd st))"
proof -
  obtain written buf' w1 where a:
    "socketWrite alloc cfd (Some (oBuf (sockets (fst st) cfd))) (snd st) = ((written, buf'), w1)"
    by (cases "socketWrite alloc cfd (Some (oBuf (sockets (fst st) cfd))) (snd st)") auto
  let ?s1 = "(fst st)\<lparr>sockets := (sockets (fst st))(cfd := (sockets (fst st) cfd)
                  \<lparr>oBuf := stored (oBuf (sockets (fst st) cfd)) buf'\<rparr>)\<rparr>"
  have r1: "reg_inv ?s1" using assms(1) by (simp add: reg_inv_def)
  obtain s2 w2 where b: "invokeCallback cb EVENT_SOCKET_WRITE INVALID_SOCKET cfd
                      (Some (IBuf cfd)) (Some (OBuf cfd)) (?s1, w1) = (s2, w2)"
    by (cases "invokeCallback cb EVENT_SOCKET_WRITE INVALID_SOCKET cfd
                      (Some (IBuf cfd)) (Some (OBuf cfd)) (?s1, w1)")
  have "reg_inv (fst (invokeCallback cb EVENT_SOCKET_WRITE INVALID_SOCKET cfd
                      (Some (IBuf cfd)) (Some (OBuf cfd)) (?s1, w1)))"
    by (rule reg_inv_invokeCallback) (simp_all add: r1 assms(2))
  with b have r2: "reg_inv s2" by simp
  then have r3: "reg_inv (disableSocketWrite cfd s2)"
    by (simp add: disableSocketWrite_def reg_inv_def)
  have c: "reg_inv (fst (removeSocket cb cfd (disableSocketWrite cfd s2, w2)))"
    by (rule reg_inv_removeSocket) (simp_all add: r3 assms(2))
  have d: "reg_inv (fst (removeSocket cb cfd (?s1, w1)))"
    by (rule reg_inv_removeSocket) (simp_all add: r1 assms(2))
  from r2 r3 c d show ?thesis
    by (simp add: handleOutput_def a b Let_def)
qed

text \<open>
  Under the invariant \<^verbatim>\<open>_highestSocket\<close> stays below \<^verbatim>\<open>SOCKET_MAX\<close>, so the loop
  of \<^verbatim>\<open>serverExec\<close> ends: induction on the distance of the loop variable from
  \<^verbatim>\<open>SOCKET_MAX\<close>.
\<close>

lemma execLoop_inv:
  assumes k: "handler_keeps_inv cb"
  shows "reg_inv (fst st) \<Longrightarrow>
         \<exists>st'. execLoop cb alloc readSet writeSet fd st = Some st' \<and> reg_inv (fst st')"
proof (induction "nat (SOCKET_MAX - fd)" arbitrary: fd st rule: less_induct)
  case less
  show ?case
  proof (cases "fd \<le> highestSocket (fst st)")
    case False
    with less.prems show ?thesis by (subst execLoop.simps) simp
  next
    case True
    define st1 where "st1 = (if fd \<in> readSet then handleInput cb alloc fd st else st)"
    define st2 where "st2 = (if fd \<in> writeSet then handleOutput cb alloc fd st1 else st1)"
    have r1: "reg_inv (fst st1)"
      unfolding st1_def using reg_inv_handleInput [OF less.prems k] less.prems by simp
    have r2: "reg_inv (fst st2)"
      unfolding st2_def using reg_inv_handleOutput [OF r1 k] r1 by simp
    from True reg_inv_highest_less [OF less.prems] have "fd < SOCKET_MAX" by simp
    then have "nat (SOCKET_MAX - (fd + 1)) < nat (SOCKET_MAX - fd)" by simp
    from less.hyps [OF this r2] obtain st' where
      st': "execLoop cb alloc readSet writeSet (fd + 1) st2 = Some st'" "reg_inv (fst st')"
      by blast
    have eq: "execLoop cb alloc readSet writeSet fd st
                = execLoop cb alloc readSet writeSet (fd + 1) st2"
      by (subst execLoop.simps) (simp add: True st2_def st1_def Let_def)
    from st' show ?thesis unfolding eq by blast
  qed
qed

lemma serverExec_inv:
  assumes "reg_inv s" "handler_keeps_inv cb"
  shows "\<exists>r s' w'. serverExec cb alloc sel (s, w) = Some (r, (s', w')) \<and> reg_inv s'"
proof (cases "highestSocket s < 0")
  case True
  with assms show ?thesis by (simp add: serverExec_def)
next
  case False
  obtain result eintr readSet writeSet w1 where sl:
    "sys_select sel (highestSocket s + 1) (socketReadSet s) (socketWriteSet s) w
       = ((result, eintr, readSet, writeSet), w1)"
    by (cases "sys_select sel (highestSocket s + 1) (socketReadSet s) (socketWriteSet s) w") auto
  from execLoop_inv [OF assms(2), of "(s, w1)" alloc readSet writeSet 0] assms(1)
  obtain st' where lp: "execLoop cb alloc readSet writeSet 0 (s, w1) = Some st'"
    "reg_inv (fst st')" by auto
  have idle: "reg_inv (fst (invokeCallback cb EVENT_IDLE INVALID_SOCKET INVALID_SOCKET None None
                         (s, w1)))"
    by (rule reg_inv_invokeCallback) (simp_all add: assms)
  show ?thesis
  proof (cases "result > 0")
    case True
    with False lp show ?thesis
      by (cases st') (simp add: serverExec_def sl Let_def)
  next
    case nr: False
    with False assms(1) idle show ?thesis
      by (cases "invokeCallback cb EVENT_IDLE INVALID_SOCKET INVALID_SOCKET None None (s, w1)")
         (auto simp: serverExec_def sl Let_def)
  qed
qed

lemma removeSocket_None_sets:
  "socketReadSet (fst (removeSocket None fd (s, w))) = socketReadSet s - {fd}"
  by (simp add: removeSocket_def invokeCallback_def Let_def)

lemma handler_keeps_inv_None: "handler_keeps_inv None"
  by (simp add: handler_keeps_inv_def)

lemma handler_keeps_inv_closeHandler: "handler_keeps_inv closeHandler"
  by (simp add: handler_keeps_inv_def closeHandler_def serverCloseSocket_def
      enableSocketWrite_def reg_inv_def)

lemma reg_inv_highest:
  "reg_inv s \<Longrightarrow> socketReadSet s = A \<Longrightarrow>
   highestSocket s = (if A = {} then INVALID_SOCKET else Max A)"
  by (auto simp: reg_inv_def)

text \<open>
  C4. \<^verbatim>\<open>_highestSocket\<close> is the greatest descriptor of the read set, or the sentinel
  when the set is empty (and the read set holds descriptors in range only): this holds
  after \<^verbatim>\<open>serverPrepare\<close>; \<^verbatim>\<open>_addSocket\<close> keeps it; \<^verbatim>\<open>_removeSocket\<close> keeps
  it and a tick of \<^verbatim>\<open>serverExec\<close> returns and keeps it, for every handler that keeps
  it, as the public operations a handler can call do. With the read set \<open>{3, 7, 9}\<close>,
  removing 9 makes \<^verbatim>\<open>_highestSocket\<close> 7, and removing all three, in any order, makes
  it the sentinel.
\<close>

theorem highestSocket_is_maximum:
  "reg_inv (snd serverPrepare)
   \<and> (reg_inv s \<longrightarrow> reg_inv (snd (addSocket fd s)))
   \<and> (reg_inv s \<and> handler_keeps_inv cb \<longrightarrow>
          reg_inv (fst (removeSocket cb fd (s, w)))
        \<and> (\<exists>r s' w'. serverExec cb alloc sel (s, w) = Some (r, (s', w')) \<and> reg_inv s'))
   \<and> (reg_inv s \<and> socketReadSet s = {3, 7, 9} \<longrightarrow>
          highestSocket s = 9
        \<and> highestSocket (fst (removeSocket None 9 (s, w))) = 7
        \<and> (\<forall>a b c. {a, b, c} = {3, 7, 9} \<longrightarrow>
              highestSocket (fst (removeSocket None c (removeSocket None b
                 (removeSocket None a (s, w))))) = INVALID_SOCKET))"
proof -
  have rm: "reg_inv s \<and> handler_keeps_inv cb \<longrightarrow>
          reg_inv (fst (removeSocket cb fd (s, w)))
        \<and> (\<exists>r s' w'. serverExec cb alloc sel (s, w) = Some (r, (s', w')) \<and> reg_inv s')"
    using reg_inv_removeSocket [of "(s, w)" cb fd] serverExec_inv [of s cb alloc sel w]
    by simp
  have ex: "reg_inv s \<and> socketReadSet s = {3, 7, 9} \<longrightarrow>
          highestSocket s = 9
        \<and> highestSocket (fst (removeSocket None 9 (s, w))) = 7
        \<and> (\<forall>a b c. {a, b, c} = {3, 7, 9} \<longrightarrow>
              highestSocket (fst (removeSocket None c (removeSocket None b
                 (removeSocket None a (s, w))))) = INVALID_SOCKET)"
  proof
    assume a: "reg_inv s \<and> socketReadSet s = {3, 7, 9}"
    then have r: "reg_inv s" and rs: "socketReadSet s = {3, 7, 9}" by simp_all
    have h9: "highestSocket s = 9" using reg_inv_highest [OF r rs] by simp
    have r1: "reg_inv (fst (removeSocket None 9 (s, w)))"
      by (rule reg_inv_removeSocket) (simp_all add: r handler_keeps_inv_None)
    have "socketReadSet (fst (removeSocket None 9 (s, w))) = {3, 7}"
      by (auto simp: removeSocket_None_sets rs)
    from reg_inv_highest [OF r1 this] have h7: "highestSocket (fst (removeSocket None 9 (s, w))) = 7"
      by simp
    have all: "\<forall>a b c. {a, b, c} = {3, 7, 9} \<longrightarrow>
              highestSocket (fst (removeSocket None c (removeSocket None b
                 (removeSocket None a (s, w))))) = INVALID_SOCKET"
    proof (intro allI impI)
      fix a b c :: int
      assume e: "{a, b, c} = {3, 7, 9}"
      let ?st1 = "removeSocket None a (s, w)"
      let ?st2 = "removeSocket None b ?st1"
      let ?st3 = "removeSocket None c ?st2"
      have q1: "reg_inv (fst ?st1)"
        by (rule reg_inv_removeSocket) (simp_all add: r handler_keeps_inv_None)
      have q2: "reg_inv (fst ?st2)"
        by (rule reg_inv_removeSocket) (simp_all add: q1 handler_keeps_inv_None)
      have q3: "reg_inv (fst ?st3)"
        by (rule reg_inv_removeSocket) (simp_all add: q2 handler_keeps_inv_None)
      have "socketReadSet (fst ?st3) = {3, 7, 9} - {a} - {b} - {c}"
        using removeSocket_None_sets [of c "fst ?st2" "snd ?st2"]
          removeSocket_None_sets [of b "fst ?st1" "snd ?st1"]
          removeSocket_None_sets [of a s w] rs by simp
      also have "\<dots> = {}" using e by blast
      finally have "socketReadSet (fst ?st3) = {}" .
      from reg_inv_highest [OF q3 this] show "highestSocket (fst ?st3) = INVALID_SOCKET" by simp
    qed
    from h9 h7 all show "highestSocket s = 9
        \<and> highestSocket (fst (removeSocket None 9 (s, w))) = 7
        \<and> (\<forall>a b c. {a, b, c} = {3, 7, 9} \<longrightarrow>
              highestSocket (fst (removeSocket None c (removeSocket None b
                 (removeSocket None a (s, w))))) = INVALID_SOCKET)" by blast
  qed
  from reg_inv_prepare reg_inv_addSocket [of s fd] rm ex show ?thesis by blast
qed

theorem highestSocket_is_maximum_witness:
  "reg_inv s379 \<and> socketReadSet s379 = {3, 7, 9} \<and> highestSocket s379 = 9
   \<and> handler_keeps_inv closeHandler
   \<and> reg_inv (fst (removeSocket closeHandler 7 (s379, quietWorld)))
   \<and> (\<exists>r s' w'. serverExec closeHandler noMemory (SelectReady {3, 7} {9}) (s379, quietWorld)
                   = Some (r, (s', w')) \<and> reg_inv s')
   \<and> highestSocket (fst (removeSocket None 9 (s379, quietWorld))) = 7
   \<and> highestSocket (fst (removeSocket None 3 (removeSocket None 7
        (removeSocket None 9 (s379, quietWorld))))) = INVALID_SOCKET
   \<and> serverExec None noMemory (SelectReady {} {})
        (removeSocket None 3 (removeSocket None 7 (removeSocket None 9 (s379, quietWorld))))
      = Some (2, removeSocket None 3 (removeSocket None 7 (removeSocket None 9 (s379, quietWorld))))"
proof -
  let ?p = "snd serverPrepare"
  note t = highestSocket_is_maximum
  have r0: "reg_inv ?p" using t [of ?p 0 None quietWorld noMemory SelectFailed] by blast
  have r3: "reg_inv (snd (addSocket 3 ?p))"
    using t [of ?p 3 None quietWorld noMemory SelectFailed] by blast
  have r7: "reg_inv (snd (addSocket 7 (snd (addSocket 3 ?p))))"
    using t [of "snd (addSocket 3 ?p)" 7 None quietWorld noMemory SelectFailed] r3 by blast
  have r9: "reg_inv s379"
    unfolding s379_def
    using t [of "snd (addSocket 7 (snd (addSocket 3 ?p)))" 9 None quietWorld noMemory SelectFailed]
      r7 by blast
  have rs: "socketReadSet s379 = {3, 7, 9}"
    by (auto simp: s379_def addSocket_def isValidSocket_def INVALID_SOCKET_def SOCKET_MAX_def
        serverPrepare_def)
  have e: "{9, 7, 3} = {3, 7, 9 :: int}" by auto
  from t [of s379 9 None quietWorld noMemory SelectFailed] r9 rs
  have c: "highestSocket s379 = 9"
    "highestSocket (fst (removeSocket None 9 (s379, quietWorld))) = 7"
    "highestSocket (fst (removeSocket None 3 (removeSocket None 7
        (removeSocket None 9 (s379, quietWorld))))) = INVALID_SOCKET"
    using e by blast+
  from t [of s379 7 closeHandler quietWorld noMemory "SelectReady {3, 7} {9}"] r9
    handler_keeps_inv_closeHandler
  have d: "reg_inv (fst (removeSocket closeHandler 7 (s379, quietWorld)))"
    "\<exists>r s' w'. serverExec closeHandler noMemory (SelectReady {3, 7} {9}) (s379, quietWorld)
                   = Some (r, (s', w')) \<and> reg_inv s'"
    by blast+
  have "serverExec None noMemory (SelectReady {} {})
        (removeSocket None 3 (removeSocket None 7 (removeSocket None 9 (s379, quietWorld))))
      = Some (2, removeSocket None 3 (removeSocket None 7 (removeSocket None 9 (s379, quietWorld))))"
    using c(3) by (simp add: serverExec_def INVALID_SOCKET_def)
  with r9 rs c d handler_keeps_inv_closeHandler show ?thesis by blast
qed

end
